theory Spec2Isabelle
  imports Main
begin

section \<open>Entity classification (core/computed/entity-classification.js)\<close>

text \<open>
  The module groups the URLs of a page's network records by the organisation (entity)
  that served them. JavaScript objects have identity: \<open>urlsByEntity\<close> is a
  \<open>Map\<close> keyed by entity objects and \<open>isFirstParty\<close> compares with \<open>===\<close>. The
  embedding therefore keeps entities in an explicit store and passes references around.
\<close>

subsection \<open>Entities and references\<close>

text \<open>
  An object reference. \<open>Known k\<close> is the \<open>k\<close>-th entity object of the third-party-web
  dataset (it exists before the run, the module never reads or writes its fields);
  \<open>Made i\<close> is the \<open>i\<close>-th entity object literal evaluated by this run, whose fields
  are \<open>entities ! i\<close> of the store.
\<close>

datatype ref = Known nat | Made nat

text \<open>
  The fields of the two object literals of the module. \<open>homepage\<close> and
  \<open>isUnrecognized\<close> are absent (\<open>None\<close>) from the literal that does not write them.
\<close>

record entity =
  name :: string
  company :: string
  category :: string
  homepage :: "string option"
  categories :: "string list"
  domains :: "string list"
  averageExecutionTime :: int
  totalExecutionTime :: int
  totalOccurrences :: int
  isUnrecognized :: "bool option"

subsection \<open>Functions imported from other modules\<close>

text \<open>
  The module imports its URL helpers and the known-entity lookup; their code is not part
  of the module, so they are parameters of the embedding:
  \<^item> \<open>getEntity\<close>: \<open>thirdPartyWeb.getEntity(url)\<close>, which returns an entity object
    of the dataset (\<open>Some k\<close> for the dataset's \<open>k\<close>-th object) or \<open>undefined\<close>;
  \<^item> \<open>isValid\<close>: \<open>UrlUtils.isValid(url)\<close>;
  \<^item> \<open>urlProtocol\<close>: \<open>Util.createOrReturnURL(url).protocol\<close>;
  \<^item> \<open>getChromeExtensionOrigin\<close>, \<open>getRootDomain\<close>: the \<open>Util\<close> functions of these
    names; \<open>None\<close> stands for \<open>undefined\<close>/\<open>null\<close>;
  \<^item> \<open>newURLhost\<close>: \<open>new URL(origin).host\<close>; the constructor throws a \<open>TypeError\<close> on
    a string it cannot parse, which is \<open>None\<close>.

  The constructor call is the one operation written in the module that can throw, and
  the only source of an error in the embedding. The imported functions are taken to
  return a value for every string they are called with (\<open>makeUpAnEntity\<close> calls the
  \<open>Util\<close> functions only on a URL that \<open>isValid\<close> accepted).
\<close>

record env =
  getEntity :: "string \<Rightarrow> nat option"
  isValid :: "string \<Rightarrow> bool"
  urlProtocol :: "string \<Rightarrow> string"
  getChromeExtensionOrigin :: "string \<Rightarrow> string option"
  getRootDomain :: "string \<Rightarrow> string option"
  newURLhost :: "string \<Rightarrow> string option"

datatype error = TypeError string

text \<open>\<open>s.startsWith(p)\<close> on strings.\<close>

definition startsWith :: "string \<Rightarrow> string \<Rightarrow> bool" where
  "startsWith s p = (take (length p) s = p)"

text \<open>
  JavaScript truthiness of a value that is a string, \<open>undefined\<close> or \<open>null\<close>: only a
  non-empty string is truthy. \<open>truthy\<close> returns the string when it is.
\<close>

fun truthy :: "string option \<Rightarrow> string option" where
  "truthy None = None"
| "truthy (Some s) = (if s = [] then None else Some s)"

subsection \<open>The state of one run\<close>

type_synonym EntityCache = "string \<rightharpoonup> ref"

text \<open>
  \<open>entities\<close> is the store of the objects made by the run, in allocation order. The
  three maps are the local variables of \<open>compute_\<close> of the same names. A \<open>Map\<close> from
  strings compares keys by value, a \<open>Map\<close> from objects by identity, which is equality
  of references here.
\<close>

record run_state =
  entities :: "entity list"
  madeUpEntityCache :: EntityCache
  entityByUrl :: "string \<rightharpoonup> ref"
  urlsByEntity :: "ref \<rightharpoonup> string set"

text \<open>
  What \<open>compute_\<close> returns: the two maps and \<open>firstParty\<close> (\<open>None\<close> is \<open>undefined\<close>),
  together with the store the references point into and the cache as the call left it.
  \<open>isFirstParty\<close> is a function of the result, below.
\<close>

record classification = run_state +
  firstParty :: "ref option"

subsection \<open>makeUpAnEntity\<close>

text \<open>The object literal \<open>unrecognizedEntity\<close> of \<open>makeUpAnEntity\<close>.\<close>

definition unrecognizedEntity :: "bool \<Rightarrow> string \<Rightarrow> entity" where
  "unrecognizedEntity isChromeExt rootDomain =
     \<lparr> name = rootDomain,
       company = rootDomain,
       category = [],
       homepage = None,
       categories = [],
       domains = (if isChromeExt then [] else [rootDomain]),
       averageExecutionTime = 0,
       totalExecutionTime = 0,
       totalOccurrences = 0,
       isUnrecognized = Some True \<rparr>"

text \<open>
  \<open>makeUpAnEntity(entityCache, url)\<close>. The cache is mutated in place by the source; the
  embedding takes the store and the cache and returns them with the result (\<open>None\<close> for
  a bare \<open>return\<close>).
\<close>

definition makeUpAnEntity ::
  "env \<Rightarrow> entity list \<times> EntityCache \<Rightarrow> string \<Rightarrow> ref option \<times> entity list \<times> EntityCache" where
  "makeUpAnEntity E hc url =
     (case hc of (h, entityCache) \<Rightarrow>
       if \<not> isValid E url then (None, h, entityCache)
       else
         let isChromeExtension = (urlProtocol E url = ''chrome-extension:'') in
         if \<not> isChromeExtension \<and> \<not> startsWith (urlProtocol E url) ''http''
           then (None, h, entityCache)
         else
           (case truthy (if isChromeExtension then getChromeExtensionOrigin E url
                         else getRootDomain E url) of
              None \<Rightarrow> (None, h, entityCache)
            | Some rootDomain \<Rightarrow>
                (case entityCache rootDomain of
                   Some e \<Rightarrow> (Some e, h, entityCache)
                 | None \<Rightarrow>
                     (Some (Made (length h)),
                      h @ [unrecognizedEntity isChromeExtension rootDomain],
                      entityCache(rootDomain \<mapsto> Made (length h))))))"

subsection \<open>preloadChromeExtensionsToCache_\<close>

text \<open>
  A devtools log entry: its \<open>method\<close> (the field \<open>entry_method\<close>) and, for \<open>Runtime.executionContextCreated\<close>,
  \<open>params.context.origin\<close> and \<open>params.context.name\<close>. The loop reads the two fields
  only of an entry of that method.
\<close>

record log_entry =
  entry_method :: string
  context_origin :: string
  context_name :: string

definition extensionEntity :: "string \<Rightarrow> string \<Rightarrow> entity" where
  "extensionEntity nm host =
     \<lparr> name = nm,
       company = nm,
       category = ''Chrome Extension'',
       homepage = Some (''https://chromewebstore.google.com/detail/'' @ host),
       categories = [],
       domains = [],
       averageExecutionTime = 0,
       totalExecutionTime = 0,
       totalOccurrences = 0,
       isUnrecognized = None \<rparr>"

text \<open>
  \<open>preloadChromeExtensionsToCache_\<close>, the loop over the log (a constant's name cannot
  end with an underscore here, so the two functions that do lose it).
  \<open>new URL(origin)\<close> throws on an origin it cannot parse, which ends the loop and the
  whole of \<open>compute_\<close> with that error.
\<close>

fun preloadChromeExtensionsToCache ::
  "env \<Rightarrow> entity list \<times> EntityCache \<Rightarrow> log_entry list \<Rightarrow> error + entity list \<times> EntityCache" where
  "preloadChromeExtensionsToCache E hc [] = Inr hc"
| "preloadChromeExtensionsToCache E hc (entry # rest) =
     (if entry_method entry \<noteq> ''Runtime.executionContextCreated''
        then preloadChromeExtensionsToCache E hc rest
      else if \<not> startsWith (context_origin entry) ''chrome-extension:''
        then preloadChromeExtensionsToCache E hc rest
      else if snd hc (context_origin entry) \<noteq> None
        then preloadChromeExtensionsToCache E hc rest
      else (case newURLhost E (context_origin entry) of
              None \<Rightarrow> Inl (TypeError (context_origin entry))
            | Some host \<Rightarrow>
                preloadChromeExtensionsToCache E
                  (fst hc @ [extensionEntity (context_name entry) host],
                   (snd hc)(context_origin entry \<mapsto> Made (length (fst hc))))
                  rest))"

subsection \<open>compute_\<close>

text \<open>
  \<open>thirdPartyWeb.getEntity(url) || EntityClassification.makeUpAnEntity(cache, url)\<close>:
  an entity object is truthy, so the right operand is evaluated only when the lookup
  returns \<open>undefined\<close>.
\<close>

definition resolveEntity ::
  "env \<Rightarrow> entity list \<times> EntityCache \<Rightarrow> string \<Rightarrow> ref option \<times> entity list \<times> EntityCache" where
  "resolveEntity E hc url =
     (case getEntity E url of
        Some k \<Rightarrow> (Some (Known k), fst hc, snd hc)
      | None \<Rightarrow> makeUpAnEntity E hc url)"

text \<open>The body of the loop over the network records, for the record's \<open>url\<close>.\<close>

definition classifyRecord :: "env \<Rightarrow> run_state \<Rightarrow> string \<Rightarrow> run_state" where
  "classifyRecord E st url =
     (if entityByUrl st url \<noteq> None then st
      else (case resolveEntity E (entities st, madeUpEntityCache st) url of
              (None, h, c) \<Rightarrow> st\<lparr>entities := h, madeUpEntityCache := c\<rparr>
            | (Some e, h, c) \<Rightarrow>
                st\<lparr>entities := h,
                   madeUpEntityCache := c,
                   urlsByEntity := (urlsByEntity st)
                     (e \<mapsto> insert url (case urlsByEntity st e of None \<Rightarrow> {} | Some s \<Rightarrow> s)),
                   entityByUrl := (entityByUrl st)(url \<mapsto> e)\<rparr>))"

fun classifyRecords :: "env \<Rightarrow> run_state \<Rightarrow> string list \<Rightarrow> run_state" where
  "classifyRecords E st [] = st"
| "classifyRecords E st (url # rest) = classifyRecords E (classifyRecord E st url) rest"

text \<open>The page URL metadata \<open>data.URL\<close> and the input \<open>data\<close>.\<close>

record page_url =
  mainDocumentUrl :: "string option"
  finalDisplayedUrl :: string

record data =
  URL :: page_url
  devtoolsLog :: "log_entry list"

text \<open>\<open>data.URL.mainDocumentUrl || data.URL.finalDisplayedUrl\<close>.\<close>

definition firstPartyUrl :: "page_url \<Rightarrow> string" where
  "firstPartyUrl u =
     (case truthy (mainDocumentUrl u) of Some m \<Rightarrow> m | None \<Rightarrow> finalDisplayedUrl u)"

text \<open>The state in which the loop over the records starts.\<close>

definition initialState :: "entity list \<times> EntityCache \<Rightarrow> run_state" where
  "initialState hc =
     \<lparr> entities = fst hc, madeUpEntityCache = snd hc,
       entityByUrl = Map.empty, urlsByEntity = Map.empty \<rparr>"

text \<open>The end of \<open>compute_\<close>: first party is resolved in the state the loop left.\<close>

definition resolveFirstParty :: "env \<Rightarrow> run_state \<Rightarrow> string \<Rightarrow> classification" where
  "resolveFirstParty E st url =
     (case resolveEntity E (entities st, madeUpEntityCache st) url of
        (fp, h, c) \<Rightarrow>
          \<lparr> entities = h, madeUpEntityCache = c,
            entityByUrl = entityByUrl st, urlsByEntity = urlsByEntity st,
            firstParty = fp \<rparr>)"

text \<open>
  \<open>compute_(data, context)\<close>, with \<open>networkRecords\<close> the URLs of the records that
  \<open>await NetworkRecords.request(data.devtoolsLog, context)\<close> produced, in their order.
  (When that request rejects, the rejection is the outcome of \<open>compute_\<close> and none of
  the code below runs.)
\<close>

definition compute :: "env \<Rightarrow> data \<Rightarrow> string list \<Rightarrow> error + classification" where
  "compute E d networkRecords =
     (case preloadChromeExtensionsToCache E ([], Map.empty) (devtoolsLog d) of
        Inl err \<Rightarrow> Inl err
      | Inr hc \<Rightarrow>
          Inr (resolveFirstParty E
                 (classifyRecords E (initialState hc) networkRecords)
                 (firstPartyUrl (URL d))))"

text \<open>\<open>isFirstParty(url)\<close> of a result: \<open>entityByUrl.get(url) === firstParty\<close>.\<close>

definition isFirstParty :: "classification \<Rightarrow> string \<Rightarrow> bool" where
  "isFirstParty r url = (entityByUrl r url = firstParty r)"

section \<open>Notions used to state the properties\<close>

text \<open>
  The canonical key of a URL: the value of the local \<open>rootDomain\<close> with which
  \<open>makeUpAnEntity\<close> reaches its cache lookup (the extension origin of a
  \<open>chrome-extension:\<close> URL, the root domain of a URL whose protocol starts with
  \<open>http\<close>), and \<open>None\<close> when the function returns before the lookup.
\<close>

definition isChromeExtension :: "env \<Rightarrow> string \<Rightarrow> bool" where
  "isChromeExtension E url = (urlProtocol E url = ''chrome-extension:'')"

definition canonicalKey :: "env \<Rightarrow> string \<Rightarrow> string option" where
  "canonicalKey E url =
     (if \<not> isValid E url then None
      else if \<not> isChromeExtension E url \<and> \<not> startsWith (urlProtocol E url) ''http'' then None
      else truthy (if isChromeExtension E url then getChromeExtensionOrigin E url
                   else getRootDomain E url))"

text \<open>The two writes that end the loop body: \<open>url\<close> is attributed to \<open>e\<close>.\<close>

definition attach :: "run_state \<Rightarrow> string \<Rightarrow> ref \<Rightarrow> run_state" where
  "attach st url e =
     st\<lparr>urlsByEntity := (urlsByEntity st)
            (e \<mapsto> insert url (case urlsByEntity st e of None \<Rightarrow> {} | Some s \<Rightarrow> s)),
        entityByUrl := (entityByUrl st)(url \<mapsto> e)\<rparr>"

text \<open>
  A URL is settled in a state when looking at it again changes nothing: it has its entry,
  or neither the lookup nor the synthesis gives it an entity.
\<close>

definition settled :: "env \<Rightarrow> run_state \<Rightarrow> string \<Rightarrow> bool" where
  "settled E st u \<longleftrightarrow>
     entityByUrl st u \<noteq> None \<or> (getEntity E u = None \<and> canonicalKey E u = None)"

text \<open>\<open>ube\<close> is the inverse index of \<open>ebu\<close>, with no set for an entity without URLs.\<close>

definition inverse_index :: "(string \<rightharpoonup> ref) \<Rightarrow> (ref \<rightharpoonup> string set) \<Rightarrow> bool" where
  "inverse_index ebu ube \<longleftrightarrow>
     (\<forall>e u. (\<exists>s. ube e = Some s \<and> u \<in> s) = (ebu u = Some e)) \<and>
     (\<forall>e. (e \<in> dom ube) = (\<exists>u. ebu u = Some e))"

text \<open>
  What a URL resolves to against a cache \<open>c\<close>, without making anything: the dataset's
  entity when the lookup has one, else the cache's entry for the canonical key.
\<close>

definition resolvedIn :: "env \<Rightarrow> EntityCache \<Rightarrow> string \<Rightarrow> ref option" where
  "resolvedIn E c u =
     (case getEntity E u of
        Some k \<Rightarrow> Some (Known k)
      | None \<Rightarrow> (case canonicalKey E u of None \<Rightarrow> None | Some k \<Rightarrow> c k))"

definition agrees :: "env \<Rightarrow> run_state \<Rightarrow> bool" where
  "agrees E st \<longleftrightarrow>
     (\<forall>u r. entityByUrl st u = Some r \<longrightarrow> resolvedIn E (madeUpEntityCache st) u = Some r)"

text \<open>
  Where an object of the store comes from: the preload made it for an entry of the log,
  or \<open>makeUpAnEntity\<close> made it for one of the URLs \<open>urls\<close> that the lookup does not know.
\<close>

definition isExtensionContext :: "log_entry \<Rightarrow> bool" where
  "isExtensionContext entry \<longleftrightarrow>
     entry_method entry = ''Runtime.executionContextCreated'' \<and>
     startsWith (context_origin entry) ''chrome-extension:''"

definition preloaded :: "env \<Rightarrow> log_entry list \<Rightarrow> entity \<Rightarrow> bool" where
  "preloaded E lg e \<longleftrightarrow>
     (\<exists>entry\<in>set lg. isExtensionContext entry \<and>
        (\<exists>host. newURLhost E (context_origin entry) = Some host \<and>
                e = extensionEntity (context_name entry) host))"

definition synthesized :: "env \<Rightarrow> string set \<Rightarrow> entity \<Rightarrow> bool" where
  "synthesized E urls e \<longleftrightarrow>
     (\<exists>u\<in>urls. getEntity E u = None \<and>
        (\<exists>k. canonicalKey E u = Some k \<and> e = unrecognizedEntity (isChromeExtension E u) k))"

definition cache_wf :: "entity list \<Rightarrow> EntityCache \<Rightarrow> bool" where
  "cache_wf h c \<longleftrightarrow> (\<forall>k r. c k = Some r \<longrightarrow> (\<exists>i. r = Made i \<and> i < length h))"

definition store_ok :: "env \<Rightarrow> log_entry list \<Rightarrow> string set \<Rightarrow> entity list \<Rightarrow> EntityCache \<Rightarrow> bool" where
  "store_ok E lg urls h c \<longleftrightarrow>
     cache_wf h c \<and> (\<forall>i<length h. preloaded E lg (h ! i) \<or> synthesized E urls (h ! i))"

section \<open>The dependency cache behind makeComputedArtifact\<close>

text \<open>
  Modelled from the spec: \<open>makeComputedArtifact\<close> (computed-artifact.js) and the
  run context's cache are imported by the module and are not among the source files.
  The spec's section 4.1 has the cache key be the artifact's identity with a structural
  fingerprint of the inputs, the first caller for a key trigger the producer and store a
  pending placeholder, later callers for the key get that same placeholder, and a
  failure be cached like a result. A request runs to its end without interruption (one
  logical thread of control), so concurrent callers are an interleaving of whole
  requests and of the completions of producers.
\<close>

datatype cache_key = CacheKey string string

datatype 'a outcome = Result 'a | Failure string

datatype 'a placeholder = Pending | Done "'a outcome"

text \<open>
  Modelled from the spec: the cache of one run context. \<open>computedCache\<close> maps a key to
  the placeholder stored for it (its index in \<open>placeholders\<close>); \<open>producerCalls\<close> is the
  call counter of the spec's testable property, one entry for each producer invocation.
\<close>

record 'a dependency_cache =
  computedCache :: "cache_key \<rightharpoonup> nat"
  placeholders :: "'a placeholder list"
  producerCalls :: "cache_key list"

text \<open>
  Modelled from the spec: \<open>request(inputs, context)\<close> for the key of the artifact and
  inputs. It returns the placeholder the caller awaits.
\<close>

definition request :: "'a dependency_cache \<Rightarrow> cache_key \<Rightarrow> nat \<times> 'a dependency_cache" where
  "request ctx key =
     (case computedCache ctx key of
        Some p \<Rightarrow> (p, ctx)
      | None \<Rightarrow>
          (length (placeholders ctx),
           ctx\<lparr>computedCache := (computedCache ctx)(key \<mapsto> length (placeholders ctx)),
               placeholders := placeholders ctx @ [Pending],
               producerCalls := key # producerCalls ctx\<rparr>))"

text \<open>
  Modelled from the spec: the producer behind placeholder \<open>p\<close> finishes with a result
  or a failure, which replaces the pending placeholder; a placeholder settles once.
\<close>

definition complete :: "'a dependency_cache \<Rightarrow> nat \<Rightarrow> 'a outcome \<Rightarrow> 'a dependency_cache" where
  "complete ctx p out =
     (if p < length (placeholders ctx) \<and> placeholders ctx ! p = Pending
      then ctx\<lparr>placeholders := (placeholders ctx)[p := Done out]\<rparr>
      else ctx)"

text \<open>
  Modelled from the spec: what happens in a run context, in the order it happens: a
  caller requests a key, or a producer completes. \<open>handed\<close> records which placeholder
  each caller was given for which key.
\<close>

datatype 'a event = Request nat cache_key | Complete nat "'a outcome"

record 'a run =
  cache :: "'a dependency_cache"
  handed :: "((nat \<times> cache_key) \<times> nat) list"

fun step :: "'a run \<Rightarrow> 'a event \<Rightarrow> 'a run" where
  "step s (Request caller key) =
     (case request (cache s) key of
        (p, ctx) \<Rightarrow> \<lparr>cache = ctx, handed = ((caller, key), p) # handed s\<rparr>)"
| "step s (Complete p out) = s\<lparr>cache := complete (cache s) p out\<rparr>"

definition newRun :: "'a run" where
  "newRun = \<lparr>cache = \<lparr>computedCache = Map.empty, placeholders = [], producerCalls = []\<rparr>,
             handed = []\<rparr>"

text \<open>What a caller sees of its request for a key: the state of the placeholder it awaits.\<close>

definition observed :: "'a run \<Rightarrow> nat \<Rightarrow> cache_key \<Rightarrow> 'a placeholder option" where
  "observed s caller key =
     (case map_of (handed s) (caller, key) of
        None \<Rightarrow> None
      | Some p \<Rightarrow> Some (placeholders (cache s) ! p))"

definition single_flight :: "'a run \<Rightarrow> bool" where
  "single_flight s \<longleftrightarrow>
     (\<forall>k. count_list (producerCalls (cache s)) k =
           (if computedCache (cache s) k = None then 0 else 1)) \<and>
     (\<forall>c k p. ((c, k), p) \<in> set (handed s) \<longrightarrow> computedCache (cache s) k = Some p)"

section \<open>An example page\<close>

text \<open>
  An environment for a handful of URLs, to run the definitions on: the lookup knows
  three URLs of two entities of one root domain, \<open>urlProtocol\<close> is the text up to the
  first colon, and the other helpers are given by their values on the URLs used.
\<close>

definition exampleEnv :: env where
  "exampleEnv =
     \<lparr> getEntity = map_of
         [(''https://fonts.googleapis.com/css'', 0),
          (''https://maps.googleapis.com/js'', 1),
          (''wss://maps.googleapis.com/live'', 1)],
       isValid = (\<lambda>u. u \<in> set
         [''https://fonts.googleapis.com/css'', ''https://maps.googleapis.com/js'',
          ''wss://maps.googleapis.com/live'', ''https://sub.example.com/a'',
          ''https://other.example.com/b'', ''https://example.org/'',
          ''chrome-extension://abc123/script.js'', ''chrome-extension://xyz789/inject.js'',
          ''data:text/plain,hi'', ''about:blank'', ''httpx://cdn.example.net/x'']),
       urlProtocol = (\<lambda>u. takeWhile (\<lambda>c. c \<noteq> CHR '':'') u @ '':''),
       getChromeExtensionOrigin = map_of
         [(''chrome-extension://abc123/script.js'', ''chrome-extension://abc123''),
          (''chrome-extension://xyz789/inject.js'', ''chrome-extension://xyz789'')],
       getRootDomain = map_of
         [(''https://fonts.googleapis.com/css'', ''googleapis.com''),
          (''https://maps.googleapis.com/js'', ''googleapis.com''),
          (''https://sub.example.com/a'', ''example.com''),
          (''https://other.example.com/b'', ''example.com''),
          (''https://example.org/'', ''example.org''),
          (''httpx://cdn.example.net/x'', ''example.net'')],
       newURLhost = map_of
         [(''chrome-extension://abc123'', ''abc123'')] \<rparr>"

definition exampleData :: "string option \<Rightarrow> log_entry list \<Rightarrow> data" where
  "exampleData mainDoc lg =
     \<lparr> URL = \<lparr> mainDocumentUrl = mainDoc, finalDisplayedUrl = ''https://example.org/'' \<rparr>,
       devtoolsLog = lg \<rparr>"

definition contextCreated :: "string \<Rightarrow> string \<Rightarrow> log_entry" where
  "contextCreated origin nm =
     \<lparr> entry_method = ''Runtime.executionContextCreated'', context_origin = origin, context_name = nm \<rparr>"

text \<open>The classification of the example page for a log and a list of record URLs.\<close>

definition exampleResult :: "string option \<Rightarrow> log_entry list \<Rightarrow> string list \<Rightarrow> classification" where
  "exampleResult mainDoc lg recs = projr (compute exampleEnv (exampleData mainDoc lg) recs)"

section \<open>Lemmas\<close>

subsection \<open>The cases of makeUpAnEntity and of the loop body\<close>

lemma makeUpAnEntity_none:
  "canonicalKey E url = None \<Longrightarrow> makeUpAnEntity E (h, c) url = (None, h, c)"
  by (auto simp: makeUpAnEntity_def canonicalKey_def isChromeExtension_def Let_def
      split: if_splits)

lemma makeUpAnEntity_hit:
  "canonicalKey E url = Some k \<Longrightarrow> c k = Some e \<Longrightarrow> makeUpAnEntity E (h, c) url = (Some e, h, c)"
  by (auto simp: makeUpAnEntity_def canonicalKey_def isChromeExtension_def Let_def
      split: if_splits)

lemma makeUpAnEntity_miss:
  "canonicalKey E url = Some k \<Longrightarrow> c k = None \<Longrightarrow>
   makeUpAnEntity E (h, c) url =
     (Some (Made (length h)), h @ [unrecognizedEntity (isChromeExtension E url) k],
      c(k \<mapsto> Made (length h)))"
  by (auto simp: makeUpAnEntity_def canonicalKey_def isChromeExtension_def Let_def
      split: if_splits)

lemma classifyRecord_cases:
  obtains
    (seen) "entityByUrl st u \<noteq> None" "classifyRecord E st u = st"
  | (known) k where "entityByUrl st u = None" "getEntity E u = Some k"
      "classifyRecord E st u = attach st u (Known k)"
  | (none) "entityByUrl st u = None" "getEntity E u = None" "canonicalKey E u = None"
      "classifyRecord E st u = st"
  | (hit) k e where "entityByUrl st u = None" "getEntity E u = None"
      "canonicalKey E u = Some k" "madeUpEntityCache st k = Some e"
      "classifyRecord E st u = attach st u e"
  | (miss) k where "entityByUrl st u = None" "getEntity E u = None"
      "canonicalKey E u = Some k" "madeUpEntityCache st k = None"
      "classifyRecord E st u =
         attach (st\<lparr>entities := entities st @ [unrecognizedEntity (isChromeExtension E u) k],
                    madeUpEntityCache := (madeUpEntityCache st)(k \<mapsto> Made (length (entities st)))\<rparr>)
           u (Made (length (entities st)))"
proof (cases "entityByUrl st u")
  case (Some r)
  then show ?thesis using seen by (simp add: classifyRecord_def)
next
  case None
  note ebu = this
  show ?thesis
  proof (cases "getEntity E u")
    case (Some k)
    then show ?thesis using known[of k] ebu
      by (simp add: classifyRecord_def resolveEntity_def attach_def)
  next
    case None
    note ge = this
    show ?thesis
    proof (cases "canonicalKey E u")
      case None
      then show ?thesis using none ebu ge
        by (simp add: classifyRecord_def resolveEntity_def makeUpAnEntity_none)
    next
      case (Some k)
      note rd = this
      show ?thesis
      proof (cases "madeUpEntityCache st k")
        case None
        then show ?thesis using miss[of k] ebu ge rd
          by (simp add: classifyRecord_def resolveEntity_def makeUpAnEntity_miss attach_def)
      next
        case (Some e)
        then show ?thesis using hit[of k e] ebu ge rd
          by (simp add: classifyRecord_def resolveEntity_def makeUpAnEntity_hit attach_def)
      qed
    qed
  qed
qed

subsection \<open>What a step keeps\<close>

lemma attach_fields [simp]:
  "entities (attach st u e) = entities st"
  "madeUpEntityCache (attach st u e) = madeUpEntityCache st"
  "entityByUrl (attach st u e) = (entityByUrl st)(u \<mapsto> e)"
  "urlsByEntity (attach st u e) = (urlsByEntity st)
       (e \<mapsto> insert u (case urlsByEntity st e of None \<Rightarrow> {} | Some s \<Rightarrow> s))"
  by (simp_all add: attach_def)

lemma classifyRecord_entityByUrl_other:
  "v \<noteq> u \<Longrightarrow> entityByUrl (classifyRecord E st u) v = entityByUrl st v"
  by (rule classifyRecord_cases[where st=st and u=u and E=E]) simp_all

lemma classifyRecord_entityByUrl_mono:
  "entityByUrl st v = Some r \<Longrightarrow> entityByUrl (classifyRecord E st u) v = Some r"
  by (rule classifyRecord_cases[where st=st and u=u and E=E]) auto

lemma classifyRecord_cache_mono:
  "madeUpEntityCache st k = Some r \<Longrightarrow> madeUpEntityCache (classifyRecord E st u) k = Some r"
  by (rule classifyRecord_cases[where st=st and u=u and E=E]) auto

lemma classifyRecord_entities:
  "\<exists>ys. entities (classifyRecord E st u) = entities st @ ys"
  by (rule classifyRecord_cases[where st=st and u=u and E=E]) auto

lemma classifyRecords_entityByUrl_mono:
  "entityByUrl st v = Some r \<Longrightarrow> entityByUrl (classifyRecords E st us) v = Some r"
  by (induction us arbitrary: st) (simp_all add: classifyRecord_entityByUrl_mono)

lemma classifyRecords_cache_mono:
  "madeUpEntityCache st k = Some r \<Longrightarrow> madeUpEntityCache (classifyRecords E st us) k = Some r"
  by (induction us arbitrary: st) (simp_all add: classifyRecord_cache_mono)

lemma classifyRecords_entities:
  "\<exists>ys. entities (classifyRecords E st us) = entities st @ ys"
proof (induction us arbitrary: st)
  case Nil
  show ?case by simp
next
  case (Cons u us)
  obtain ys where a: "entities (classifyRecord E st u) = entities st @ ys"
    using classifyRecord_entities by blast
  obtain zs where "entities (classifyRecords E (classifyRecord E st u) us) =
      entities (classifyRecord E st u) @ zs"
    using Cons.IH by blast
  with a show ?case by simp
qed

lemma classifyRecords_entityByUrl_notin:
  "v \<notin> set us \<Longrightarrow> entityByUrl (classifyRecords E st us) v = entityByUrl st v"
  by (induction us arbitrary: st) (auto simp: classifyRecord_entityByUrl_other)

lemma classifyRecords_append:
  "classifyRecords E st (us @ vs) = classifyRecords E (classifyRecords E st us) vs"
  by (induction us arbitrary: st) simp_all

subsection \<open>A URL that was looked at stays as it is\<close>

lemma settled_classifyRecord_id: "settled E st u \<Longrightarrow> classifyRecord E st u = st"
  by (rule classifyRecord_cases[where st=st and u=u and E=E]) (auto simp: settled_def)

lemma classifyRecord_settles: "settled E (classifyRecord E st u) u"
  by (rule classifyRecord_cases[where st=st and u=u and E=E]) (auto simp: settled_def)

lemma settled_classifyRecord: "settled E st v \<Longrightarrow> settled E (classifyRecord E st u) v"
  unfolding settled_def using classifyRecord_entityByUrl_mono by fastforce

lemma settled_classifyRecords: "settled E st v \<Longrightarrow> settled E (classifyRecords E st us) v"
  by (induction us arbitrary: st) (simp_all add: settled_classifyRecord)

lemma classifyRecords_settles: "u \<in> set us \<Longrightarrow> settled E (classifyRecords E st us) u"
proof (induction us arbitrary: st)
  case Nil
  then show ?case by simp
next
  case (Cons a us)
  show ?case
  proof (cases "u = a")
    case True
    then show ?thesis
      by (simp add: settled_classifyRecords classifyRecord_settles)
  next
    case False
    with Cons show ?thesis by simp
  qed
qed

lemma classifyRecords_repeat:
  "u \<in> set pre \<Longrightarrow>
   classifyRecords E st (pre @ u # post) = classifyRecords E st (pre @ post)"
  by (simp add: classifyRecords_append settled_classifyRecord_id classifyRecords_settles)

lemma settled_entry_fixed:
  "settled E st u \<Longrightarrow> entityByUrl (classifyRecords E st us) u = entityByUrl st u"
proof (induction us arbitrary: st)
  case Nil
  show ?case by simp
next
  case (Cons a us)
  show ?case
  proof (cases "a = u")
    case True
    with Cons show ?thesis by (simp add: settled_classifyRecord_id)
  next
    case False
    with Cons show ?thesis
      by (simp add: settled_classifyRecord classifyRecord_entityByUrl_other)
  qed
qed

subsection \<open>Inverse index\<close>

lemma inverse_index_attach:
  assumes "inverse_index (entityByUrl st) (urlsByEntity st)" "entityByUrl st u = None"
  shows "inverse_index (entityByUrl (attach st u e)) (urlsByEntity (attach st u e))"
proof -
  have a: "\<And>e' v. (\<exists>s. urlsByEntity st e' = Some s \<and> v \<in> s) = (entityByUrl st v = Some e')"
    and b: "\<And>e'. (e' \<in> dom (urlsByEntity st)) = (\<exists>v. entityByUrl st v = Some e')"
    using assms(1) by (simp_all add: inverse_index_def)
  have 1: "(\<exists>s. urlsByEntity (attach st u e) e' = Some s \<and> v \<in> s) =
           (entityByUrl (attach st u e) v = Some e')" for e' v
  proof (cases "e' = e")
    case True
    show ?thesis
    proof (cases "urlsByEntity st e")
      case None
      then have "entityByUrl st v \<noteq> Some e" using a[of e v] by simp
      with None True show ?thesis by auto
    next
      case (Some s)
      then have "(v \<in> s) = (entityByUrl st v = Some e)" using a[of e v] by simp
      with Some True assms(2) show ?thesis by auto
    qed
  next
    case False
    then show ?thesis using a[of e' v] assms(2) by auto
  qed
  have 2: "(e' \<in> dom (urlsByEntity (attach st u e))) =
           (\<exists>v. entityByUrl (attach st u e) v = Some e')" for e'
  proof (cases "e' = e")
    case True
    then show ?thesis by auto
  next
    case False
    have "(\<exists>v. entityByUrl st v = Some e') = (\<exists>v. ((entityByUrl st)(u \<mapsto> e)) v = Some e')"
      using False assms(2) by (metis fun_upd_apply option.distinct(1) option.inject)
    then show ?thesis using b[of e'] False by (simp add: dom_def)
  qed
  show ?thesis unfolding inverse_index_def using 1 2 by blast
qed

lemma inverse_index_classifyRecord:
  assumes "inverse_index (entityByUrl st) (urlsByEntity st)"
  shows "inverse_index (entityByUrl (classifyRecord E st u)) (urlsByEntity (classifyRecord E st u))"
proof (rule classifyRecord_cases[where st=st and u=u and E=E])
  assume "classifyRecord E st u = st"
  then show ?thesis using assms by simp
next
  fix k
  assume "entityByUrl st u = None" "classifyRecord E st u = attach st u (Known k)"
  then show ?thesis using inverse_index_attach[OF assms] by simp
next
  assume "classifyRecord E st u = st"
  then show ?thesis using assms by simp
next
  fix k e
  assume "entityByUrl st u = None" "classifyRecord E st u = attach st u e"
  then show ?thesis using inverse_index_attach[OF assms] by simp
next
  fix k
  let ?st = "st\<lparr>entities := entities st @ [unrecognizedEntity (isChromeExtension E u) k],
                    madeUpEntityCache := (madeUpEntityCache st)(k \<mapsto> Made (length (entities st)))\<rparr>"
  assume h: "entityByUrl st u = None"
    "classifyRecord E st u = attach ?st u (Made (length (entities st)))"
  have "inverse_index (entityByUrl ?st) (urlsByEntity ?st)" using assms by simp
  moreover have "entityByUrl ?st u = None" using h(1) by simp
  ultimately show ?thesis using inverse_index_attach h(2) by metis
qed

lemma inverse_index_classifyRecords:
  "inverse_index (entityByUrl st) (urlsByEntity st) \<Longrightarrow>
   inverse_index (entityByUrl (classifyRecords E st us)) (urlsByEntity (classifyRecords E st us))"
  by (induction us arbitrary: st) (simp_all add: inverse_index_classifyRecord)

lemma inverse_index_initialState:
  "inverse_index (entityByUrl (initialState hc)) (urlsByEntity (initialState hc))"
  by (simp add: inverse_index_def initialState_def)

subsection \<open>Entries of entityByUrl agree with the cache\<close>

lemma resolvedIn_mono:
  "resolvedIn E c u = Some r \<Longrightarrow> (\<And>k e. c k = Some e \<Longrightarrow> c' k = Some e) \<Longrightarrow>
   resolvedIn E c' u = Some r"
  by (auto simp: resolvedIn_def split: option.splits)

lemma agrees_classifyRecord:
  assumes "agrees E st"
  shows "agrees E (classifyRecord E st u)"
proof -
  have old: "\<And>v r. entityByUrl st v = Some r \<Longrightarrow> resolvedIn E (madeUpEntityCache st) v = Some r"
    using assms by (simp add: agrees_def)
  show ?thesis
  proof (rule classifyRecord_cases[where st=st and u=u and E=E])
    assume "classifyRecord E st u = st"
    then show ?thesis using assms by simp
  next
    fix k
    assume "getEntity E u = Some k" "classifyRecord E st u = attach st u (Known k)"
    then show ?thesis using old by (auto simp: agrees_def resolvedIn_def)
  next
    assume "classifyRecord E st u = st"
    then show ?thesis using assms by simp
  next
    fix k e
    assume "getEntity E u = None" "canonicalKey E u = Some k" "madeUpEntityCache st k = Some e"
      "classifyRecord E st u = attach st u e"
    then show ?thesis using old by (auto simp: agrees_def resolvedIn_def)
  next
    fix k
    let ?c = "(madeUpEntityCache st)(k \<mapsto> Made (length (entities st)))"
    let ?st = "st\<lparr>entities := entities st @ [unrecognizedEntity (isChromeExtension E u) k],
                    madeUpEntityCache := ?c\<rparr>"
    assume h: "getEntity E u = None" "canonicalKey E u = Some k" "madeUpEntityCache st k = None"
      "classifyRecord E st u = attach ?st u (Made (length (entities st)))"
    have mono: "\<And>k' e. madeUpEntityCache st k' = Some e \<Longrightarrow> ?c k' = Some e"
      using h(3) by auto
    have new: "resolvedIn E ?c u = Some (Made (length (entities st)))"
      using h(1,2) by (simp add: resolvedIn_def)
    have "resolvedIn E ?c v = Some r" if "((entityByUrl st)(u \<mapsto> Made (length (entities st)))) v = Some r"
      for v r
    proof (cases "v = u")
      case True
      with that new show ?thesis by simp
    next
      case False
      with that have "entityByUrl st v = Some r" by simp
      then show ?thesis using old resolvedIn_mono mono by blast
    qed
    then show ?thesis using h(4) by (simp add: agrees_def)
  qed
qed

lemma agrees_classifyRecords: "agrees E st \<Longrightarrow> agrees E (classifyRecords E st us)"
  by (induction us arbitrary: st) (simp_all add: agrees_classifyRecord)

lemma agrees_initialState: "agrees E (initialState hc)"
  by (simp add: agrees_def initialState_def)

subsection \<open>Keys of the cache\<close>

lemma classifyRecord_cache_dom:
  "madeUpEntityCache (classifyRecord E st u) k \<noteq> None \<Longrightarrow>
   madeUpEntityCache st k \<noteq> None \<or> (getEntity E u = None \<and> canonicalKey E u = Some k)"
  by (rule classifyRecord_cases[where st=st and u=u and E=E]) (auto split: if_splits)

lemma classifyRecords_cache_dom:
  "madeUpEntityCache (classifyRecords E st us) k \<noteq> None \<Longrightarrow>
   madeUpEntityCache st k \<noteq> None \<or> (\<exists>u\<in>set us. getEntity E u = None \<and> canonicalKey E u = Some k)"
proof (induction us arbitrary: st)
  case Nil
  then show ?case by simp
next
  case (Cons a us)
  from Cons.IH[of "classifyRecord E st a"] Cons.prems
  have "madeUpEntityCache (classifyRecord E st a) k \<noteq> None \<or>
        (\<exists>u\<in>set us. getEntity E u = None \<and> canonicalKey E u = Some k)" by simp
  then show ?case using classifyRecord_cache_dom[of E st a k] by auto
qed

subsection \<open>The preload\<close>

lemma preload_step:
  "preloadChromeExtensionsToCache E (h, c) (entry # rest) =
     (if \<not> isExtensionContext entry \<or> c (context_origin entry) \<noteq> None
        then preloadChromeExtensionsToCache E (h, c) rest
      else (case newURLhost E (context_origin entry) of
              None \<Rightarrow> Inl (TypeError (context_origin entry))
            | Some host \<Rightarrow>
                preloadChromeExtensionsToCache E
                  (h @ [extensionEntity (context_name entry) host],
                   c(context_origin entry \<mapsto> Made (length h)))
                  rest))"
  by (auto simp: isExtensionContext_def split: option.splits)

lemma preload_keeps:
  "preloadChromeExtensionsToCache E (h, c) lg = Inr (h', c') \<Longrightarrow>
   (\<exists>ys. h' = h @ ys) \<and> (\<forall>k r. c k = Some r \<longrightarrow> c' k = Some r)"
proof (induction lg arbitrary: h c)
  case Nil
  then show ?case by simp
next
  case (Cons entry rest)
  show ?case
  proof (cases "\<not> isExtensionContext entry \<or> c (context_origin entry) \<noteq> None")
    case True
    with Cons.prems have "preloadChromeExtensionsToCache E (h, c) rest = Inr (h', c')"
      by (simp only: preload_step if_True)
    then show ?thesis by (rule Cons.IH)
  next
    case False
    then have free: "c (context_origin entry) = None" by simp
    from False Cons.prems obtain host where
      host: "newURLhost E (context_origin entry) = Some host" and
      rest: "preloadChromeExtensionsToCache E
               (h @ [extensionEntity (context_name entry) host],
                c(context_origin entry \<mapsto> Made (length h))) rest = Inr (h', c')"
      by (simp only: preload_step if_False split: option.splits) auto
    from Cons.IH[OF rest] obtain ys where
      ys: "h' = (h @ [extensionEntity (context_name entry) host]) @ ys" and
      up: "\<And>k r. (c(context_origin entry \<mapsto> Made (length h))) k = Some r \<Longrightarrow> c' k = Some r"
      by blast
    have "c' k = Some r" if "c k = Some r" for k r
    proof -
      from that free have "k \<noteq> context_origin entry" by auto
      with that show ?thesis using up[of k r] by simp
    qed
    with ys show ?thesis by auto
  qed
qed

lemma preload_cache_wf:
  "preloadChromeExtensionsToCache E (h, c) lg = Inr (h', c') \<Longrightarrow> cache_wf h c \<Longrightarrow> cache_wf h' c'"
proof (induction lg arbitrary: h c)
  case Nil
  then show ?case by simp
next
  case (Cons entry rest)
  show ?case
  proof (cases "\<not> isExtensionContext entry \<or> c (context_origin entry) \<noteq> None")
    case True
    with Cons.prems have "preloadChromeExtensionsToCache E (h, c) rest = Inr (h', c')"
      by (simp only: preload_step if_True)
    then show ?thesis using Cons.IH Cons.prems(2) by blast
  next
    case False
    from False Cons.prems obtain host where
      rest: "preloadChromeExtensionsToCache E
               (h @ [extensionEntity (context_name entry) host],
                c(context_origin entry \<mapsto> Made (length h))) rest = Inr (h', c')"
      by (simp only: preload_step if_False split: option.splits) auto
    have "cache_wf (h @ [extensionEntity (context_name entry) host])
            (c(context_origin entry \<mapsto> Made (length h)))"
      using Cons.prems(2) unfolding cache_wf_def by (auto simp: less_Suc_eq split: if_splits)
    then show ?thesis using Cons.IH[OF rest] by blast
  qed
qed

lemma preload_cells:
  "preloadChromeExtensionsToCache E (h, c) lg = Inr (h', c') \<Longrightarrow>
   length h \<le> i \<Longrightarrow> i < length h' \<Longrightarrow> preloaded E lg (h' ! i)"
proof (induction lg arbitrary: h c)
  case Nil
  then show ?case by simp
next
  case (Cons entry rest)
  show ?case
  proof (cases "\<not> isExtensionContext entry \<or> c (context_origin entry) \<noteq> None")
    case True
    with Cons.prems have "preloadChromeExtensionsToCache E (h, c) rest = Inr (h', c')"
      by (simp only: preload_step if_True)
    then have "preloaded E rest (h' ! i)" using Cons.IH Cons.prems(2,3) by blast
    then show ?thesis by (auto simp: preloaded_def)
  next
    case False
    from False Cons.prems obtain host where
      host: "newURLhost E (context_origin entry) = Some host" and
      rest: "preloadChromeExtensionsToCache E
               (h @ [extensionEntity (context_name entry) host],
                c(context_origin entry \<mapsto> Made (length h))) rest = Inr (h', c')"
      by (simp only: preload_step if_False split: option.splits) auto
    show ?thesis
    proof (cases "i = length h")
      case True
      obtain ys where "h' = (h @ [extensionEntity (context_name entry) host]) @ ys"
        using preload_keeps[OF rest] by blast
      then have "h' ! i = extensionEntity (context_name entry) host"
        using True by (simp add: nth_append)
      then show ?thesis using False host by (auto simp: preloaded_def)
    next
      case False
      then have "length (h @ [extensionEntity (context_name entry) host]) \<le> i"
        using Cons.prems(2) by simp
      then have "preloaded E rest (h' ! i)" using Cons.IH[OF rest] Cons.prems(3) by blast
      then show ?thesis by (auto simp: preloaded_def)
    qed
  qed
qed

lemma preload_cache_dom:
  "preloadChromeExtensionsToCache E (h, c) lg = Inr (h', c') \<Longrightarrow> c' k \<noteq> None \<Longrightarrow>
   c k \<noteq> None \<or> (\<exists>entry\<in>set lg. isExtensionContext entry \<and> context_origin entry = k)"
proof (induction lg arbitrary: h c)
  case Nil
  then show ?case by simp
next
  case (Cons entry rest)
  show ?case
  proof (cases "\<not> isExtensionContext entry \<or> c (context_origin entry) \<noteq> None")
    case True
    with Cons.prems have "preloadChromeExtensionsToCache E (h, c) rest = Inr (h', c')"
      by (simp only: preload_step if_True)
    from Cons.IH[OF this Cons.prems(2)] show ?thesis by auto
  next
    case False
    from False Cons.prems obtain host where
      rest: "preloadChromeExtensionsToCache E
               (h @ [extensionEntity (context_name entry) host],
                c(context_origin entry \<mapsto> Made (length h))) rest = Inr (h', c')"
      by (simp only: preload_step if_False split: option.splits) auto
    from Cons.IH[OF rest Cons.prems(2)] False show ?thesis by (auto split: if_splits)
  qed
qed

text \<open>The first entry of the log for an origin is the one the cache keeps.\<close>

lemma preload_first:
  "preloadChromeExtensionsToCache E (h, c) lg = Inr (h', c') \<Longrightarrow>
   List.find (\<lambda>e. entry_method e = ''Runtime.executionContextCreated'' \<and> context_origin e = origin) lg
     = Some entry \<Longrightarrow>
   startsWith origin ''chrome-extension:'' \<Longrightarrow> c origin = None \<Longrightarrow>
   \<exists>i host. c' origin = Some (Made i) \<and> i < length h' \<and>
     newURLhost E origin = Some host \<and> h' ! i = extensionEntity (context_name entry) host"
proof (induction lg arbitrary: h c)
  case Nil
  then show ?case by simp
next
  case (Cons a rest)
  show ?case
  proof (cases "entry_method a = ''Runtime.executionContextCreated'' \<and> context_origin a = origin")
    case True
    then have a: "entry = a" using Cons.prems(2) by simp
    have ext: "isExtensionContext a" using True Cons.prems(3) by (simp add: isExtensionContext_def)
    from ext True Cons.prems(1,4) obtain host where
      host: "newURLhost E origin = Some host" and
      rest: "preloadChromeExtensionsToCache E
               (h @ [extensionEntity (context_name a) host],
                c(origin \<mapsto> Made (length h))) rest = Inr (h', c')"
      by (simp only: preload_step split: option.splits) auto
    from preload_keeps[OF rest] obtain ys where
      h': "h' = (h @ [extensionEntity (context_name a) host]) @ ys" and
      c': "c' origin = Some (Made (length h))" by auto
    have "h' ! length h = extensionEntity (context_name a) host" "length h < length h'"
      using h' by (simp_all add: nth_append)
    then show ?thesis using a c' host by blast
  next
    case False
    then have find: "List.find (\<lambda>e. entry_method e = ''Runtime.executionContextCreated'' \<and>
        context_origin e = origin) rest = Some entry"
      using Cons.prems(2) by auto
    show ?thesis
    proof (cases "\<not> isExtensionContext a \<or> c (context_origin a) \<noteq> None")
      case True
      with Cons.prems(1) have "preloadChromeExtensionsToCache E (h, c) rest = Inr (h', c')"
        by (simp only: preload_step if_True)
      from Cons.IH[OF this find Cons.prems(3,4)] show ?thesis .
    next
      case nskip: False
      then have "entry_method a = ''Runtime.executionContextCreated''"
        by (simp add: isExtensionContext_def)
      with False have ne: "context_origin a \<noteq> origin" by simp
      from nskip Cons.prems(1) obtain host where
        rest: "preloadChromeExtensionsToCache E
                 (h @ [extensionEntity (context_name a) host],
                  c(context_origin a \<mapsto> Made (length h))) rest = Inr (h', c')"
        by (simp only: preload_step if_False split: option.splits) auto
      have "(c(context_origin a \<mapsto> Made (length h))) origin = None"
        using ne Cons.prems(4) by simp
      from Cons.IH[OF rest find Cons.prems(3) this] show ?thesis .
    qed
  qed
qed

subsection \<open>Where the objects of the store come from\<close>

lemma synthesized_mono: "synthesized E A e \<Longrightarrow> A \<subseteq> B \<Longrightarrow> synthesized E B e"
  by (auto simp: synthesized_def)

lemma store_ok_mono: "store_ok E lg A h c \<Longrightarrow> A \<subseteq> B \<Longrightarrow> store_ok E lg B h c"
  unfolding store_ok_def using synthesized_mono by blast

lemma store_ok_preload:
  assumes "preloadChromeExtensionsToCache E ([], Map.empty) lg = Inr (h, c)"
  shows "store_ok E lg {} h c"
proof -
  have "cache_wf h c"
    using preload_cache_wf[OF assms] by (simp add: cache_wf_def)
  moreover have "preloaded E lg (h ! i)" if "i < length h" for i
    using preload_cells[OF assms, of i] that by simp
  ultimately show ?thesis by (simp add: store_ok_def)
qed

lemma store_ok_miss:
  assumes ok: "store_ok E lg urls h c"
    and u: "getEntity E u = None" "canonicalKey E u = Some k"
  shows "store_ok E lg (insert u urls)
           (h @ [unrecognizedEntity (isChromeExtension E u) k]) (c(k \<mapsto> Made (length h)))"
proof -
  let ?h = "h @ [unrecognizedEntity (isChromeExtension E u) k]"
  have wf: "cache_wf ?h (c(k \<mapsto> Made (length h)))"
    using ok unfolding store_ok_def cache_wf_def by (auto simp: less_Suc_eq split: if_splits)
  have cell: "preloaded E lg (?h ! i) \<or> synthesized E (insert u urls) (?h ! i)"
    if "i < length ?h" for i
  proof (cases "i < length h")
    case True
    then have "preloaded E lg (h ! i) \<or> synthesized E urls (h ! i)"
      using ok by (simp add: store_ok_def)
    then show ?thesis using True synthesized_mono[of E urls "h ! i" "insert u urls"]
      by (auto simp: nth_append)
  next
    case False
    with that have "i = length h" by simp
    then have "?h ! i = unrecognizedEntity (isChromeExtension E u) k" by simp
    then show ?thesis using u by (auto simp: synthesized_def)
  qed
  show ?thesis unfolding store_ok_def using wf cell by blast
qed

lemma store_ok_classifyRecord:
  assumes "store_ok E lg urls (entities st) (madeUpEntityCache st)"
  shows "store_ok E lg (insert u urls) (entities (classifyRecord E st u))
           (madeUpEntityCache (classifyRecord E st u))"
proof (rule classifyRecord_cases[where st=st and u=u and E=E])
  assume "classifyRecord E st u = st"
  then show ?thesis using store_ok_mono[OF assms, of "insert u urls"] by auto
next
  fix k
  assume "classifyRecord E st u = attach st u (Known k)"
  then show ?thesis using store_ok_mono[OF assms, of "insert u urls"] by auto
next
  assume "classifyRecord E st u = st"
  then show ?thesis using store_ok_mono[OF assms, of "insert u urls"] by auto
next
  fix k e
  assume "classifyRecord E st u = attach st u e"
  then show ?thesis using store_ok_mono[OF assms, of "insert u urls"] by auto
next
  fix k
  assume "getEntity E u = None" "canonicalKey E u = Some k"
    "classifyRecord E st u =
       attach (st\<lparr>entities := entities st @ [unrecognizedEntity (isChromeExtension E u) k],
                  madeUpEntityCache := (madeUpEntityCache st)(k \<mapsto> Made (length (entities st)))\<rparr>)
         u (Made (length (entities st)))"
  then show ?thesis using store_ok_miss[OF assms, of u k] by simp
qed

lemma store_ok_classifyRecords:
  "store_ok E lg urls (entities st) (madeUpEntityCache st) \<Longrightarrow>
   store_ok E lg (urls \<union> set us) (entities (classifyRecords E st us))
     (madeUpEntityCache (classifyRecords E st us))"
proof (induction us arbitrary: st urls)
  case Nil
  then show ?case by simp
next
  case (Cons a us)
  from Cons.IH[OF store_ok_classifyRecord[OF Cons.prems, of a]]
  show ?case by simp
qed

subsection \<open>Resolving first party\<close>

lemma resolveFirstParty_maps [simp]:
  "entityByUrl (resolveFirstParty E st url) = entityByUrl st"
  "urlsByEntity (resolveFirstParty E st url) = urlsByEntity st"
  by (simp_all add: resolveFirstParty_def split: prod.splits)

lemma resolveFirstParty_cases:
  obtains
    (known) k where "getEntity E url = Some k"
      "firstParty (resolveFirstParty E st url) = Some (Known k)"
      "entities (resolveFirstParty E st url) = entities st"
      "madeUpEntityCache (resolveFirstParty E st url) = madeUpEntityCache st"
  | (none) "getEntity E url = None" "canonicalKey E url = None"
      "firstParty (resolveFirstParty E st url) = None"
      "entities (resolveFirstParty E st url) = entities st"
      "madeUpEntityCache (resolveFirstParty E st url) = madeUpEntityCache st"
  | (hit) k e where "getEntity E url = None" "canonicalKey E url = Some k"
      "madeUpEntityCache st k = Some e"
      "firstParty (resolveFirstParty E st url) = Some e"
      "entities (resolveFirstParty E st url) = entities st"
      "madeUpEntityCache (resolveFirstParty E st url) = madeUpEntityCache st"
  | (miss) k where "getEntity E url = None" "canonicalKey E url = Some k"
      "madeUpEntityCache st k = None"
      "firstParty (resolveFirstParty E st url) = Some (Made (length (entities st)))"
      "entities (resolveFirstParty E st url) =
         entities st @ [unrecognizedEntity (isChromeExtension E url) k]"
      "madeUpEntityCache (resolveFirstParty E st url) =
         (madeUpEntityCache st)(k \<mapsto> Made (length (entities st)))"
proof (cases "getEntity E url")
  case (Some k)
  then show ?thesis using known[of k] by (simp add: resolveFirstParty_def resolveEntity_def)
next
  case None
  note ge = this
  show ?thesis
  proof (cases "canonicalKey E url")
    case None
    then show ?thesis using none ge
      by (simp add: resolveFirstParty_def resolveEntity_def makeUpAnEntity_none)
  next
    case (Some k)
    note rd = this
    show ?thesis
    proof (cases "madeUpEntityCache st k")
      case None
      then show ?thesis using miss[of k] ge rd
        by (simp add: resolveFirstParty_def resolveEntity_def makeUpAnEntity_miss)
    next
      case (Some e)
      then show ?thesis using hit[of k e] ge rd
        by (simp add: resolveFirstParty_def resolveEntity_def makeUpAnEntity_hit)
    qed
  qed
qed

lemma resolveFirstParty_entities:
  "\<exists>ys. entities (resolveFirstParty E st url) = entities st @ ys"
  by (rule resolveFirstParty_cases[where E=E and url=url and st=st]) auto

lemma resolveFirstParty_cache_mono:
  "madeUpEntityCache st k = Some r \<Longrightarrow> madeUpEntityCache (resolveFirstParty E st url) k = Some r"
  by (rule resolveFirstParty_cases[where E=E and url=url and st=st]) auto

lemma store_ok_resolveFirstParty:
  assumes "store_ok E lg urls (entities st) (madeUpEntityCache st)"
  shows "store_ok E lg (insert url urls) (entities (resolveFirstParty E st url))
           (madeUpEntityCache (resolveFirstParty E st url))"
proof (rule resolveFirstParty_cases[where E=E and url=url and st=st])
  fix k
  assume "getEntity E url = None" "canonicalKey E url = Some k"
    "entities (resolveFirstParty E st url) =
         entities st @ [unrecognizedEntity (isChromeExtension E url) k]"
    "madeUpEntityCache (resolveFirstParty E st url) =
         (madeUpEntityCache st)(k \<mapsto> Made (length (entities st)))"
  then show ?thesis using store_ok_miss[OF assms, of url k] by simp
qed (use store_ok_mono[OF assms, of "insert url urls"] in auto)

subsection \<open>The result of compute_\<close>

lemma compute_Inr:
  assumes "compute E d recs = Inr res"
  obtains h c where
    "preloadChromeExtensionsToCache E ([], Map.empty) (devtoolsLog d) = Inr (h, c)"
    "res = resolveFirstParty E (classifyRecords E (initialState (h, c)) recs) (firstPartyUrl (URL d))"
  using assms by (auto simp: compute_def split: sum.splits)

lemma initialState_fields [simp]:
  "entities (initialState (h, c)) = h"
  "madeUpEntityCache (initialState (h, c)) = c"
  "entityByUrl (initialState hc) = Map.empty"
  "urlsByEntity (initialState hc) = Map.empty"
  by (simp_all add: initialState_def)

lemma agrees_final:
  assumes "compute E d recs = Inr res" "entityByUrl res u = Some r"
  shows "resolvedIn E (madeUpEntityCache res) u = Some r"
proof -
  from assms(1) obtain h c where
    res: "res = resolveFirstParty E (classifyRecords E (initialState (h, c)) recs) (firstPartyUrl (URL d))"
    by (rule compute_Inr)
  let ?st = "classifyRecords E (initialState (h, c)) recs"
  have "agrees E ?st" by (simp add: agrees_classifyRecords agrees_initialState)
  moreover have "entityByUrl ?st u = Some r" using assms(2) res by simp
  ultimately have "resolvedIn E (madeUpEntityCache ?st) u = Some r" by (simp add: agrees_def)
  then show ?thesis
    unfolding res using resolvedIn_mono resolveFirstParty_cache_mono by blast
qed

lemma entityByUrl_dom:
  assumes "compute E d recs = Inr res" "entityByUrl res u = Some r"
  shows "u \<in> set recs"
proof (rule ccontr)
  assume "u \<notin> set recs"
  from assms(1) obtain h c where
    res: "res = resolveFirstParty E (classifyRecords E (initialState (h, c)) recs) (firstPartyUrl (URL d))"
    by (rule compute_Inr)
  have "entityByUrl res u = None"
    unfolding res using \<open>u \<notin> set recs\<close> by (simp add: classifyRecords_entityByUrl_notin)
  with assms(2) show False by simp
qed

lemma inverse_index_final:
  assumes "compute E d recs = Inr res"
  shows "inverse_index (entityByUrl res) (urlsByEntity res)"
proof -
  from assms obtain h c where
    res: "res = resolveFirstParty E (classifyRecords E (initialState (h, c)) recs) (firstPartyUrl (URL d))"
    by (rule compute_Inr)
  show ?thesis
    unfolding res resolveFirstParty_maps
    by (rule inverse_index_classifyRecords[OF inverse_index_initialState])
qed

lemma urlsByEntity_member:
  assumes "compute E d recs = Inr res"
  shows "(\<exists>s. urlsByEntity res e = Some s \<and> u \<in> s) = (entityByUrl res u = Some e)"
  using inverse_index_final[OF assms] by (simp add: inverse_index_def)

lemma urlsByEntity_unused:
  assumes "compute E d recs = Inr res" "\<forall>u. entityByUrl res u \<noteq> Some e"
  shows "urlsByEntity res e = None"
proof -
  have "(e \<in> dom (urlsByEntity res)) = (\<exists>u. entityByUrl res u = Some e)"
    using inverse_index_final[OF assms(1)] by (simp add: inverse_index_def)
  with assms(2) show ?thesis by (simp add: domIff)
qed

lemma startsWith_nonempty: "startsWith s ''chrome-extension:'' \<Longrightarrow> s \<noteq> []"
  by (auto simp: startsWith_def)

lemma classified_of_member:
  assumes "compute E d recs = Inr res" "u \<in> set recs" "resolvedIn E Map.empty u \<noteq> None \<or> canonicalKey E u \<noteq> None"
  shows "\<exists>r. entityByUrl res u = Some r"
proof -
  from assms(1) obtain h c where
    res: "res = resolveFirstParty E (classifyRecords E (initialState (h, c)) recs) (firstPartyUrl (URL d))"
    by (rule compute_Inr)
  have "settled E (classifyRecords E (initialState (h, c)) recs) u"
    using assms(2) by (rule classifyRecords_settles)
  moreover have "\<not> (getEntity E u = None \<and> canonicalKey E u = None)"
    using assms(3) by (auto simp: resolvedIn_def split: option.splits)
  ultimately show ?thesis unfolding res by (auto simp: settled_def)
qed

lemma classifyRecords_foldl: "classifyRecords E st us = foldl (classifyRecord E) st us"
  by (induction us arbitrary: st) simp_all

lemma classifyRecord_new_entry:
  "entityByUrl st u = None \<Longrightarrow>
   entityByUrl (classifyRecord E st u) u =
     fst (resolveEntity E (entities st, madeUpEntityCache st) u)"
  by (simp add: classifyRecord_def split: prod.splits option.splits)

lemma firstPartyUrl_absent: "mainDocumentUrl p = None \<Longrightarrow> firstPartyUrl p = finalDisplayedUrl p"
  by (simp add: firstPartyUrl_def)

lemma firstPartyUrl_present: "mainDocumentUrl p = Some m \<Longrightarrow> m \<noteq> [] \<Longrightarrow> firstPartyUrl p = m"
  by (simp add: firstPartyUrl_def)

lemma firstParty_resolved:
  assumes "compute E d recs = Inr res"
  shows "firstParty res = resolvedIn E (madeUpEntityCache res) (firstPartyUrl (URL d))"
proof -
  from assms obtain h c where
    res: "res = resolveFirstParty E (classifyRecords E (initialState (h, c)) recs) (firstPartyUrl (URL d))"
    by (rule compute_Inr)
  show ?thesis unfolding res
    by (rule resolveFirstParty_cases[where E=E and url="firstPartyUrl (URL d)"
          and st="classifyRecords E (initialState (h, c)) recs"])
       (simp_all add: resolvedIn_def)
qed

lemma firstParty_shared:
  assumes run: "compute E d recs = Inr res"
    and fp: "getEntity E (firstPartyUrl (URL d)) = None"
    and u: "u \<in> set recs" "getEntity E u = None"
    and key: "canonicalKey E u = Some k" "canonicalKey E (firstPartyUrl (URL d)) = Some k"
  shows "firstParty res = entityByUrl res u \<and> entityByUrl res u \<noteq> None"
proof -
  obtain r where r: "entityByUrl res u = Some r"
    using classified_of_member[OF run u(1)] key(1) by auto
  have "resolvedIn E (madeUpEntityCache res) u = Some r" using agrees_final[OF run r] .
  then have "madeUpEntityCache res k = Some r" using u(2) key(1) by (simp add: resolvedIn_def)
  then have "firstParty res = Some r"
    using firstParty_resolved[OF run] fp key(2) by (simp add: resolvedIn_def)
  with r show ?thesis by simp
qed

lemma firstParty_fresh:
  assumes run: "compute E d recs = Inr res"
    and fp: "getEntity E (firstPartyUrl (URL d)) = None"
      "canonicalKey E (firstPartyUrl (URL d)) = Some k"
    and recs: "\<forall>u\<in>set recs. getEntity E u = None \<longrightarrow> canonicalKey E u \<noteq> Some k"
    and lg: "\<forall>entry\<in>set (devtoolsLog d). context_origin entry \<noteq> k"
  shows "\<exists>i. firstParty res = Some (Made i) \<and> madeUpEntityCache res k = Some (Made i) \<and>
           length (entities res) = Suc i \<and>
           entities res ! i = unrecognizedEntity (isChromeExtension E (firstPartyUrl (URL d))) k \<and>
           (\<forall>u. entityByUrl res u \<noteq> Some (Made i)) \<and> urlsByEntity res (Made i) = None"
proof -
  from run obtain h c where
    pre: "preloadChromeExtensionsToCache E ([], Map.empty) (devtoolsLog d) = Inr (h, c)" and
    res: "res = resolveFirstParty E (classifyRecords E (initialState (h, c)) recs) (firstPartyUrl (URL d))"
    by (rule compute_Inr)
  let ?st = "classifyRecords E (initialState (h, c)) recs"
  let ?i = "length (entities ?st)"
  have "c k = None"
  proof (rule ccontr)
    assume "c k \<noteq> None"
    from preload_cache_dom[OF pre this] lg show False by auto
  qed
  have free: "madeUpEntityCache ?st k = None"
  proof (rule ccontr)
    assume "madeUpEntityCache ?st k \<noteq> None"
    from classifyRecords_cache_dom[OF this] \<open>c k = None\<close> recs show False by auto
  qed
  have fields: "firstParty res = Some (Made ?i)"
    "entities res = entities ?st @ [unrecognizedEntity (isChromeExtension E (firstPartyUrl (URL d))) k]"
    "madeUpEntityCache res = (madeUpEntityCache ?st)(k \<mapsto> Made ?i)"
    unfolding res
    by (rule resolveFirstParty_cases[where E=E and url="firstPartyUrl (URL d)" and st="?st"];
        use fp free in simp)+
  have ok: "store_ok E (devtoolsLog d) ({} \<union> set recs) (entities ?st) (madeUpEntityCache ?st)"
    using store_ok_classifyRecords[of E "devtoolsLog d" "{}" "initialState (h, c)" recs]
      store_ok_preload[OF pre] by simp
  have no: "entityByUrl res u \<noteq> Some (Made ?i)" for u
  proof
    assume a: "entityByUrl res u = Some (Made ?i)"
    then have "entityByUrl ?st u = Some (Made ?i)" unfolding res by simp
    moreover have "agrees E ?st" by (simp add: agrees_classifyRecords agrees_initialState)
    ultimately have "resolvedIn E (madeUpEntityCache ?st) u = Some (Made ?i)"
      by (simp add: agrees_def)
    then obtain k' where "madeUpEntityCache ?st k' = Some (Made ?i)"
      by (auto simp: resolvedIn_def split: option.splits)
    then have "?i < length (entities ?st)"
      using ok by (auto simp: store_ok_def cache_wf_def)
    then show False by simp
  qed
  have "urlsByEntity res (Made ?i) = None"
    using urlsByEntity_unused[OF run] no by blast
  with fields no show ?thesis by (auto simp: nth_append)
qed

lemma compute_returns:
  "(\<exists>res. compute E d recs = Inr res) =
   (\<exists>hc. preloadChromeExtensionsToCache E ([], Map.empty) (devtoolsLog d) = Inr hc)"
  by (auto simp: compute_def split: sum.splits)

lemma canonicalKey_rejects:
  assumes "\<not> isValid E u \<or>
     (urlProtocol E u \<noteq> ''chrome-extension:'' \<and> \<not> startsWith (urlProtocol E u) ''http'') \<or>
     truthy (if urlProtocol E u = ''chrome-extension:'' then getChromeExtensionOrigin E u
             else getRootDomain E u) = None"
  shows "canonicalKey E u = None"
  using assms by (auto simp: canonicalKey_def isChromeExtension_def)

lemma store_ok_final:
  assumes run: "compute E d recs = Inr res"
  shows "store_ok E (devtoolsLog d) (insert (firstPartyUrl (URL d)) (set recs))
           (entities res) (madeUpEntityCache res)"
proof -
  from run obtain h c where
    pre: "preloadChromeExtensionsToCache E ([], Map.empty) (devtoolsLog d) = Inr (h, c)" and
    res: "res = resolveFirstParty E (classifyRecords E (initialState (h, c)) recs) (firstPartyUrl (URL d))"
    by (rule compute_Inr)
  let ?st = "classifyRecords E (initialState (h, c)) recs"
  have "store_ok E (devtoolsLog d) ({} \<union> set recs) (entities ?st) (madeUpEntityCache ?st)"
    using store_ok_classifyRecords[of E "devtoolsLog d" "{}" "initialState (h, c)" recs]
      store_ok_preload[OF pre] by simp
  then have "store_ok E (devtoolsLog d) (set recs) (entities ?st) (madeUpEntityCache ?st)"
    by simp
  then show ?thesis unfolding res by (rule store_ok_resolveFirstParty)
qed

lemma preloaded_flag: "preloaded E lg e \<Longrightarrow> isUnrecognized e = None \<and> category e = ''Chrome Extension''"
  by (auto simp: preloaded_def extensionEntity_def)

lemma synthesized_flag: "synthesized E urls e \<Longrightarrow> isUnrecognized e = Some True \<and> category e = []"
  by (auto simp: synthesized_def unrecognizedEntity_def)

subsection \<open>The dependency cache\<close>

lemma single_flight_newRun: "single_flight newRun"
  by (simp add: single_flight_def newRun_def)

lemma complete_keeps [simp]:
  "computedCache (complete ctx p out) = computedCache ctx"
  "producerCalls (complete ctx p out) = producerCalls ctx"
  by (simp_all add: complete_def)

lemma single_flight_step: "single_flight s \<Longrightarrow> single_flight (step s ev)"
proof (cases ev)
  case (Request caller key)
  assume inv: "single_flight s"
  show ?thesis
  proof (cases "computedCache (cache s) key")
    case None
    with inv Request show ?thesis
      by (auto simp: single_flight_def request_def)
  next
    case (Some p)
    with inv Request show ?thesis
      by (auto simp: single_flight_def request_def)
  qed
next
  case (Complete p out)
  assume "single_flight s"
  with Complete show ?thesis by (simp add: single_flight_def)
qed

lemma single_flight_foldl: "single_flight s \<Longrightarrow> single_flight (foldl step s evs)"
  by (induction evs arbitrary: s) (simp_all add: single_flight_step)

lemma step_handed_mono: "x \<in> set (handed s) \<Longrightarrow> x \<in> set (handed (step s ev))"
  by (cases ev) (auto split: prod.splits)

lemma foldl_handed_mono: "x \<in> set (handed s) \<Longrightarrow> x \<in> set (handed (foldl step s evs))"
  by (induction evs arbitrary: s) (simp_all add: step_handed_mono)

lemma requested_handed:
  "Request caller key \<in> set evs \<Longrightarrow> \<exists>p. ((caller, key), p) \<in> set (handed (foldl step s evs))"
proof (induction evs arbitrary: s)
  case Nil
  then show ?case by simp
next
  case (Cons ev evs)
  show ?case
  proof (cases "ev = Request caller key")
    case True
    have "((caller, key), fst (request (cache s) key)) \<in> set (handed (step s ev))"
      using True by (cases "request (cache s) key") simp
    then show ?thesis using foldl_handed_mono by fastforce
  next
    case False
    with Cons show ?thesis by simp
  qed
qed

lemma cache_only_requested:
  "computedCache (cache (foldl step s evs)) key \<noteq> None \<Longrightarrow>
   computedCache (cache s) key \<noteq> None \<or> (\<exists>caller. Request caller key \<in> set evs)"
proof (induction evs arbitrary: s)
  case Nil
  then show ?case by simp
next
  case (Cons ev evs)
  from Cons.IH[of "step s ev"] Cons.prems
  have "computedCache (cache (step s ev)) key \<noteq> None \<or> (\<exists>caller. Request caller key \<in> set evs)"
    by simp
  then show ?case
    by (cases ev) (auto simp: request_def split: prod.splits option.splits if_splits)
qed

lemma observed_handed:
  assumes "single_flight s" "((caller, key), p) \<in> set (handed s)"
  shows "observed s caller key = Some (placeholders (cache s) ! p)"
proof -
  obtain q where q: "map_of (handed s) (caller, key) = Some q"
    using assms(2) weak_map_of_SomeI by fastforce
  then have "((caller, key), q) \<in> set (handed s)" by (rule map_of_SomeD)
  moreover have "\<And>c k p. ((c, k), p) \<in> set (handed s) \<Longrightarrow> computedCache (cache s) k = Some p"
    using assms(1) by (simp add: single_flight_def)
  ultimately have "computedCache (cache s) key = Some q" "computedCache (cache s) key = Some p"
    using assms(2) by blast+
  then have "q = p" by simp
  with q show ?thesis by (simp add: observed_def)
qed

section \<open>The claims\<close>

lemmas example_defs =
  exampleResult_def exampleEnv_def exampleData_def contextCreated_def compute_def startsWith_def
  initialState_def classifyRecord_def resolveEntity_def makeUpAnEntity_def canonicalKey_def
  isChromeExtension_def resolveFirstParty_def firstPartyUrl_def extensionEntity_def
  unrecognizedEntity_def Let_def

lemma example_returns:
  "preloadChromeExtensionsToCache exampleEnv ([], Map.empty) lg = Inr hc \<Longrightarrow>
   compute exampleEnv (exampleData m lg) recs = Inr (exampleResult m lg recs)"
  by (simp add: exampleResult_def compute_def exampleData_def)

lemma example_preload_empty:
  "preloadChromeExtensionsToCache exampleEnv ([], Map.empty) [] = Inr ([], Map.empty)"
  by simp

lemma example_preload_abc123:
  "preloadChromeExtensionsToCache exampleEnv ([], Map.empty)
     [contextCreated ''chrome-extension://abc123'' ''My Ext''] =
   Inr ([extensionEntity ''My Ext'' ''abc123''],
        [''chrome-extension://abc123'' \<mapsto> Made 0])"
  by (simp add: contextCreated_def startsWith_def exampleEnv_def)

subsection \<open>C1: one canonical key, one entity\<close>

text \<open>
  C1, as amended. In every run that returns, two request URLs that both have an entry in
  \<open>entityByUrl\<close>, that the known-entity lookup matches neither of, and that have the same
  canonical key (the same root domain for web URLs, the same extension origin for
  \<open>chrome-extension:\<close> URLs) have the very same entity: the same reference, not a copy.
\<close>

theorem same_key_same_entity:
  assumes "compute E d recs = Inr res"
    and "entityByUrl res url1 = Some e1" and "entityByUrl res url2 = Some e2"
    and "getEntity E url1 = None" and "getEntity E url2 = None"
    and "canonicalKey E url1 = canonicalKey E url2"
  shows "e1 = e2"
proof -
  have "resolvedIn E (madeUpEntityCache res) url1 = Some e1"
    "resolvedIn E (madeUpEntityCache res) url2 = Some e2"
    using assms(1-3) agrees_final by blast+
  moreover have "resolvedIn E (madeUpEntityCache res) url1 = resolvedIn E (madeUpEntityCache res) url2"
    using assms(4-6) by (simp add: resolvedIn_def)
  ultimately show ?thesis by simp
qed

theorem same_key_same_entity_witness:
  "compute exampleEnv (exampleData None [])
     [''https://sub.example.com/a'', ''https://other.example.com/b''] =
     Inr (exampleResult None [] [''https://sub.example.com/a'', ''https://other.example.com/b'']) \<and>
   getEntity exampleEnv ''https://sub.example.com/a'' = None \<and>
   getEntity exampleEnv ''https://other.example.com/b'' = None \<and>
   canonicalKey exampleEnv ''https://sub.example.com/a'' = Some ''example.com'' \<and>
   canonicalKey exampleEnv ''https://other.example.com/b'' = Some ''example.com'' \<and>
   entityByUrl (exampleResult None [] [''https://sub.example.com/a'', ''https://other.example.com/b''])
     ''https://sub.example.com/a'' = Some (Made 0) \<and>
   entityByUrl (exampleResult None [] [''https://sub.example.com/a'', ''https://other.example.com/b''])
     ''https://other.example.com/b'' = Some (Made 0)"
proof -
  let ?r = "exampleResult None [] [''https://sub.example.com/a'', ''https://other.example.com/b'']"
  have run: "compute exampleEnv (exampleData None [])
     [''https://sub.example.com/a'', ''https://other.example.com/b''] = Inr ?r"
    by (rule example_returns[OF example_preload_empty])
  have e1: "entityByUrl ?r ''https://sub.example.com/a'' = Some (Made 0)"
    by (simp add: example_defs)
  have "entityByUrl ?r ''https://other.example.com/b'' \<noteq> None"
    by (simp add: example_defs)
  then have e2: "entityByUrl ?r ''https://other.example.com/b'' =
      Some (the (entityByUrl ?r ''https://other.example.com/b''))" by simp
  have g1: "getEntity exampleEnv ''https://sub.example.com/a'' = None"
    and g2: "getEntity exampleEnv ''https://other.example.com/b'' = None"
    by (simp_all add: exampleEnv_def)
  have k1: "canonicalKey exampleEnv ''https://sub.example.com/a'' = Some ''example.com''"
    and k2: "canonicalKey exampleEnv ''https://other.example.com/b'' = Some ''example.com''"
    by (simp_all add: example_defs)
  have "Made 0 = the (entityByUrl ?r ''https://other.example.com/b'')"
    using same_key_same_entity[OF run e1 e2 g1 g2] k1 k2 by simp
  with e2 have "entityByUrl ?r ''https://other.example.com/b'' = Some (Made 0)" by simp
  with run e1 g1 g2 k1 k2 show ?thesis by blast
qed

text \<open>
  C1 as stated fails where the lookup knows the URLs: two URLs of the root domain
  \<open>googleapis.com\<close> that the dataset gives to two entities have two entities.
\<close>

theorem same_root_domain_counterexample:
  "compute exampleEnv (exampleData None [])
     [''https://fonts.googleapis.com/css'', ''https://maps.googleapis.com/js''] =
     Inr (exampleResult None []
       [''https://fonts.googleapis.com/css'', ''https://maps.googleapis.com/js'']) \<and>
   canonicalKey exampleEnv ''https://fonts.googleapis.com/css'' = Some ''googleapis.com'' \<and>
   canonicalKey exampleEnv ''https://maps.googleapis.com/js'' = Some ''googleapis.com'' \<and>
   entityByUrl (exampleResult None []
       [''https://fonts.googleapis.com/css'', ''https://maps.googleapis.com/js''])
     ''https://fonts.googleapis.com/css'' = Some (Known 0) \<and>
   entityByUrl (exampleResult None []
       [''https://fonts.googleapis.com/css'', ''https://maps.googleapis.com/js''])
     ''https://maps.googleapis.com/js'' = Some (Known 1) \<and>
   Known 0 \<noteq> Known 1"
  by (simp add: example_defs)

subsection \<open>C2: urlsByEntity is the inverse index of entityByUrl\<close>

text \<open>
  C2. In the result of a run, a URL is in the set \<open>urlsByEntity\<close> has for an entity
  exactly when \<open>entityByUrl\<close> maps the URL to that entity; an entity that no URL is
  mapped to (such as a first party made up from the page URL alone) has no set; and
  only URLs of network records have an entry.
\<close>

theorem urlsByEntity_inverse_index:
  assumes "compute E d recs = Inr res"
  shows "(\<forall>u e. (\<exists>s. urlsByEntity res e = Some s \<and> u \<in> s) = (entityByUrl res u = Some e)) \<and>
         (\<forall>e. (\<forall>u. entityByUrl res u \<noteq> Some e) \<longrightarrow> urlsByEntity res e = None) \<and>
         (\<forall>u e. entityByUrl res u = Some e \<longrightarrow> u \<in> set recs)"
proof -
  have a: "\<forall>u e. (\<exists>s. urlsByEntity res e = Some s \<and> u \<in> s) = (entityByUrl res u = Some e)"
    using urlsByEntity_member[OF assms] by blast
  have b: "\<forall>e. (\<forall>u. entityByUrl res u \<noteq> Some e) \<longrightarrow> urlsByEntity res e = None"
    using urlsByEntity_unused[OF assms] by blast
  have c: "\<forall>u e. entityByUrl res u = Some e \<longrightarrow> u \<in> set recs"
    using entityByUrl_dom[OF assms] by blast
  show ?thesis using a b c by blast
qed

theorem urlsByEntity_inverse_index_witness:
  "compute exampleEnv (exampleData None []) [''https://sub.example.com/a''] =
     Inr (exampleResult None [] [''https://sub.example.com/a'']) \<and>
   entityByUrl (exampleResult None [] [''https://sub.example.com/a''])
     ''https://sub.example.com/a'' = Some (Made 0) \<and>
   (\<exists>s. urlsByEntity (exampleResult None [] [''https://sub.example.com/a'']) (Made 0) = Some s \<and>
        ''https://sub.example.com/a'' \<in> s) \<and>
   firstParty (exampleResult None [] [''https://sub.example.com/a'']) = Some (Made 1) \<and>
   urlsByEntity (exampleResult None [] [''https://sub.example.com/a'']) (Made 1) = None"
proof -
  let ?r = "exampleResult None [] [''https://sub.example.com/a'']"
  have run: "compute exampleEnv (exampleData None []) [''https://sub.example.com/a''] = Inr ?r"
    by (rule example_returns[OF example_preload_empty])
  note inv = urlsByEntity_inverse_index[OF run]
  have e: "entityByUrl ?r ''https://sub.example.com/a'' = Some (Made 0)"
    by (simp add: example_defs)
  have fp: "firstParty ?r = Some (Made 1)"
    by (simp add: example_defs)
  have "\<forall>u. entityByUrl ?r u \<noteq> Some (Made 1)"
    by (simp add: example_defs)
  with inv have none: "urlsByEntity ?r (Made 1) = None" by blast
  from inv e have "\<exists>s. urlsByEntity ?r (Made 0) = Some s \<and> ''https://sub.example.com/a'' \<in> s"
    by blast
  with run e fp none show ?thesis by blast
qed

subsection \<open>C3: a preloaded extension origin wins over synthesis\<close>

text \<open>
  C3, as amended. When the log has a \<open>Runtime.executionContextCreated\<close> entry whose
  origin starts with \<open>chrome-extension:\<close>, every network record that the known-entity
  lookup does not match and whose URL has that extension origin resolves, in a run that
  returns, to the entity the preload made: its category is \<open>Chrome Extension\<close>, it has no
  \<open>isUnrecognized\<close> flag, and its name is the context name of the first entry of the log
  with that origin.
\<close>

theorem extension_precedence:
  assumes run: "compute E d recs = Inr res"
    and first: "List.find (\<lambda>e. entry_method e = ''Runtime.executionContextCreated'' \<and>
                  context_origin e = origin) (devtoolsLog d) = Some entry"
    and ext: "startsWith origin ''chrome-extension:''"
    and rec: "url \<in> set recs"
    and unknown: "getEntity E url = None"
    and url: "isValid E url" "urlProtocol E url = ''chrome-extension:''"
      "getChromeExtensionOrigin E url = Some origin"
  shows "\<exists>i. entityByUrl res url = Some (Made i) \<and> i < length (entities res) \<and>
           category (entities res ! i) = ''Chrome Extension'' \<and>
           name (entities res ! i) = context_name entry \<and>
           isUnrecognized (entities res ! i) = None"
proof -
  from run obtain h c where
    pre: "preloadChromeExtensionsToCache E ([], Map.empty) (devtoolsLog d) = Inr (h, c)" and
    res: "res = resolveFirstParty E (classifyRecords E (initialState (h, c)) recs) (firstPartyUrl (URL d))"
    by (rule compute_Inr)
  have key: "canonicalKey E url = Some origin"
    using url startsWith_nonempty[OF ext] by (simp add: canonicalKey_def isChromeExtension_def)
  from preload_first[OF pre first ext] obtain i host where
    i: "c origin = Some (Made i)" "i < length h"
      "h ! i = extensionEntity (context_name entry) host"
    by auto
  let ?st = "classifyRecords E (initialState (h, c)) recs"
  have "madeUpEntityCache ?st origin = Some (Made i)"
    using i(1) by (simp add: classifyRecords_cache_mono)
  then have cache: "madeUpEntityCache res origin = Some (Made i)"
    unfolding res by (rule resolveFirstParty_cache_mono)
  obtain r where r: "entityByUrl res url = Some r"
    using classified_of_member[OF run rec] key by auto
  have "resolvedIn E (madeUpEntityCache res) url = Some r"
    using agrees_final[OF run r] .
  then have r': "r = Made i" using unknown key cache by (simp add: resolvedIn_def)
  obtain ys where "entities ?st = h @ ys"
    using classifyRecords_entities[of E "initialState (h, c)" recs] by auto
  moreover obtain zs where "entities res = entities ?st @ zs"
    unfolding res using resolveFirstParty_entities by blast
  ultimately have cell: "entities res ! i = h ! i" "i < length (entities res)"
    using i(2) by (simp_all add: nth_append)
  show ?thesis using r r' cell i(3) by (simp add: extensionEntity_def)
qed

theorem extension_precedence_witness:
  "compute exampleEnv
     (exampleData None [contextCreated ''chrome-extension://abc123'' ''My Ext''])
     [''chrome-extension://abc123/script.js''] =
     Inr (exampleResult None [contextCreated ''chrome-extension://abc123'' ''My Ext'']
            [''chrome-extension://abc123/script.js'']) \<and>
   entityByUrl (exampleResult None [contextCreated ''chrome-extension://abc123'' ''My Ext'']
                  [''chrome-extension://abc123/script.js''])
     ''chrome-extension://abc123/script.js'' = Some (Made 0) \<and>
   category (entities (exampleResult None [contextCreated ''chrome-extension://abc123'' ''My Ext'']
                         [''chrome-extension://abc123/script.js'']) ! 0) = ''Chrome Extension'' \<and>
   name (entities (exampleResult None [contextCreated ''chrome-extension://abc123'' ''My Ext'']
                     [''chrome-extension://abc123/script.js'']) ! 0) = ''My Ext''"
proof -
  let ?lg = "[contextCreated ''chrome-extension://abc123'' ''My Ext'']"
  let ?u = "''chrome-extension://abc123/script.js''"
  let ?r = "exampleResult None ?lg [?u]"
  have run: "compute exampleEnv (exampleData None ?lg) [?u] = Inr ?r"
    by (rule example_returns[OF example_preload_abc123])
  have first: "List.find (\<lambda>e. entry_method e = ''Runtime.executionContextCreated'' \<and>
      context_origin e = ''chrome-extension://abc123'') (devtoolsLog (exampleData None ?lg)) =
      Some (contextCreated ''chrome-extension://abc123'' ''My Ext'')"
    by (simp add: exampleData_def contextCreated_def)
  have ext: "startsWith ''chrome-extension://abc123'' ''chrome-extension:''"
    by (simp add: startsWith_def)
  have rec: "?u \<in> set [?u]" by simp
  have unknown: "getEntity exampleEnv ?u = None" by (simp add: exampleEnv_def)
  have url: "isValid exampleEnv ?u" "urlProtocol exampleEnv ?u = ''chrome-extension:''"
    "getChromeExtensionOrigin exampleEnv ?u = Some ''chrome-extension://abc123''"
    by (simp_all add: exampleEnv_def)
  from extension_precedence[OF run first ext rec unknown url] obtain i where
    i: "entityByUrl ?r ?u = Some (Made i)" "category (entities ?r ! i) = ''Chrome Extension''"
      "name (entities ?r ! i) = context_name (contextCreated ''chrome-extension://abc123'' ''My Ext'')"
    by blast
  have "entityByUrl ?r ?u = Some (Made 0)" by (simp add: example_defs)
  with i(1) have "i = 0" by simp
  with i run show ?thesis by (simp add: contextCreated_def)
qed

text \<open>
  C3 as stated fails for an entry that is not the first of its origin: the loop
  skips an origin the cache has, so the entity keeps the name of the first entry.
\<close>

theorem extension_name_counterexample:
  "contextCreated ''chrome-extension://abc123'' ''Helper frame'' \<in>
     set (devtoolsLog (exampleData None
       [contextCreated ''chrome-extension://abc123'' ''My Ext'',
        contextCreated ''chrome-extension://abc123'' ''Helper frame''])) \<and>
   compute exampleEnv
     (exampleData None
       [contextCreated ''chrome-extension://abc123'' ''My Ext'',
        contextCreated ''chrome-extension://abc123'' ''Helper frame''])
     [''chrome-extension://abc123/script.js''] =
     Inr (exampleResult None
       [contextCreated ''chrome-extension://abc123'' ''My Ext'',
        contextCreated ''chrome-extension://abc123'' ''Helper frame'']
       [''chrome-extension://abc123/script.js'']) \<and>
   getEntity exampleEnv ''chrome-extension://abc123/script.js'' = None \<and>
   getChromeExtensionOrigin exampleEnv ''chrome-extension://abc123/script.js'' =
     Some ''chrome-extension://abc123'' \<and>
   entityByUrl (exampleResult None
       [contextCreated ''chrome-extension://abc123'' ''My Ext'',
        contextCreated ''chrome-extension://abc123'' ''Helper frame'']
       [''chrome-extension://abc123/script.js''])
     ''chrome-extension://abc123/script.js'' = Some (Made 0) \<and>
   name (entities (exampleResult None
       [contextCreated ''chrome-extension://abc123'' ''My Ext'',
        contextCreated ''chrome-extension://abc123'' ''Helper frame'']
       [''chrome-extension://abc123/script.js'']) ! 0) = ''My Ext'' \<and>
   name (entities (exampleResult None
       [contextCreated ''chrome-extension://abc123'' ''My Ext'',
        contextCreated ''chrome-extension://abc123'' ''Helper frame'']
       [''chrome-extension://abc123/script.js'']) ! 0) \<noteq>
     context_name (contextCreated ''chrome-extension://abc123'' ''Helper frame'')"
  by (simp add: example_defs)

subsection \<open>C4: records in order, the first classification of a URL wins\<close>

text \<open>
  C4. The loop is a left fold over the records in the order given. A record whose URL
  occurred in an earlier record changes nothing: the outcome is that of the list without
  it. The entry of a URL is what its first occurrence resolved to, in the state the
  records before it left.
\<close>

theorem first_classification_wins:
  assumes pre: "preloadChromeExtensionsToCache E ([], Map.empty) (devtoolsLog d) = Inr hc"
  shows "compute E d recs =
           Inr (resolveFirstParty E (foldl (classifyRecord E) (initialState hc) recs)
                  (firstPartyUrl (URL d))) \<and>
         (u \<in> set before \<longrightarrow> compute E d (before @ u # after) = compute E d (before @ after)) \<and>
         (u \<notin> set before \<longrightarrow>
            (\<exists>res. compute E d (before @ u # after) = Inr res \<and>
               entityByUrl res u =
                 fst (resolveEntity E
                        (entities (classifyRecords E (initialState hc) before),
                         madeUpEntityCache (classifyRecords E (initialState hc) before)) u)))"
proof -
  have 1: "compute E d recs =
           Inr (resolveFirstParty E (foldl (classifyRecord E) (initialState hc) recs)
                  (firstPartyUrl (URL d)))"
    using pre by (simp add: compute_def classifyRecords_foldl)
  have 2: "compute E d (before @ u # after) = compute E d (before @ after)" if "u \<in> set before"
    using pre that by (simp add: compute_def classifyRecords_repeat)
  have 3: "\<exists>res. compute E d (before @ u # after) = Inr res \<and>
               entityByUrl res u =
                 fst (resolveEntity E
                        (entities (classifyRecords E (initialState hc) before),
                         madeUpEntityCache (classifyRecords E (initialState hc) before)) u)"
    if "u \<notin> set before"
  proof -
    let ?stp = "classifyRecords E (initialState hc) before"
    have "entityByUrl ?stp u = None"
      using that by (simp add: classifyRecords_entityByUrl_notin)
    then have new: "entityByUrl (classifyRecord E ?stp u) u =
        fst (resolveEntity E (entities ?stp, madeUpEntityCache ?stp) u)"
      by (rule classifyRecord_new_entry)
    have "entityByUrl (classifyRecords E (classifyRecord E ?stp u) after) u =
          entityByUrl (classifyRecord E ?stp u) u"
      by (rule settled_entry_fixed[OF classifyRecord_settles])
    with new have "entityByUrl (classifyRecords E (initialState hc) (before @ u # after)) u =
        fst (resolveEntity E (entities ?stp, madeUpEntityCache ?stp) u)"
      by (simp add: classifyRecords_append)
    then show ?thesis using pre by (simp add: compute_def)
  qed
  show ?thesis using 1 2 3 by blast
qed

theorem first_classification_wins_witness:
  "compute exampleEnv (exampleData None [])
     ([''https://sub.example.com/a''] @ ''https://sub.example.com/a'' #
      [''https://other.example.com/b'']) =
   compute exampleEnv (exampleData None [])
     ([''https://sub.example.com/a''] @ [''https://other.example.com/b'']) \<and>
   entityByUrl (exampleResult None []
       ([''https://sub.example.com/a''] @ ''https://other.example.com/b'' #
        [''https://other.example.com/b'']))
     ''https://other.example.com/b'' = Some (Made 0)"
proof -
  let ?a = "''https://sub.example.com/a''" and ?b = "''https://other.example.com/b''"
  note T = first_classification_wins[of exampleEnv "exampleData None []" "([], Map.empty)"]
  have pre: "preloadChromeExtensionsToCache exampleEnv ([], Map.empty)
      (devtoolsLog (exampleData None [])) = Inr ([], Map.empty)"
    by (simp add: exampleData_def)
  have 1: "compute exampleEnv (exampleData None []) ([?a] @ ?a # [?b]) =
      compute exampleEnv (exampleData None []) ([?a] @ [?b])"
    using T[OF pre, of "[]" ?a "[?a]" "[?b]"] by simp
  have "?b \<notin> set [?a]" by simp
  with T[OF pre, of "[]" ?b "[?a]" "[?b]"] obtain res where
    res: "compute exampleEnv (exampleData None []) ([?a] @ ?b # [?b]) = Inr res"
      "entityByUrl res ?b =
         fst (resolveEntity exampleEnv
                (entities (classifyRecords exampleEnv (initialState ([], Map.empty)) [?a]),
                 madeUpEntityCache (classifyRecords exampleEnv (initialState ([], Map.empty)) [?a]))
                ?b)"
    by blast
  have "fst (resolveEntity exampleEnv
                (entities (classifyRecords exampleEnv (initialState ([], Map.empty)) [?a]),
                 madeUpEntityCache (classifyRecords exampleEnv (initialState ([], Map.empty)) [?a]))
                ?b) = Some (Made 0)"
    by (simp add: example_defs)
  with res have "entityByUrl (exampleResult None [] ([?a] @ ?b # [?b])) ?b = Some (Made 0)"
    by (simp add: exampleResult_def)
  with 1 show ?thesis by blast
qed

subsection \<open>C5: first party\<close>

text \<open>
  C5. The first-party URL is \<open>mainDocumentUrl\<close> when it is there (and not the empty
  string), and \<open>finalDisplayedUrl\<close> whenever \<open>mainDocumentUrl\<close> is absent. It is resolved as
  a record's URL is: the known-entity lookup first, then synthesis through the same
  cache, so that it gets the entity of a record with its canonical key, and, when no
  record and no preloaded origin has that key, a new entity is made and put in the
  cache that no URL of \<open>entityByUrl\<close> has and that has no set in \<open>urlsByEntity\<close>.
\<close>

theorem first_party_resolution:
  assumes run: "compute E d recs = Inr res"
  shows "(mainDocumentUrl (URL d) = None \<longrightarrow> firstPartyUrl (URL d) = finalDisplayedUrl (URL d)) \<and>
         (\<forall>m. mainDocumentUrl (URL d) = Some m \<and> m \<noteq> [] \<longrightarrow> firstPartyUrl (URL d) = m) \<and>
         (\<forall>k. getEntity E (firstPartyUrl (URL d)) = Some k \<longrightarrow> firstParty res = Some (Known k)) \<and>
         (getEntity E (firstPartyUrl (URL d)) = None \<longrightarrow>
            firstParty res =
              (case canonicalKey E (firstPartyUrl (URL d)) of
                 None \<Rightarrow> None | Some k \<Rightarrow> madeUpEntityCache res k) \<and>
            (\<forall>k u. canonicalKey E (firstPartyUrl (URL d)) = Some k \<and> u \<in> set recs \<and>
                 getEntity E u = None \<and> canonicalKey E u = Some k \<longrightarrow>
                 firstParty res = entityByUrl res u \<and> entityByUrl res u \<noteq> None) \<and>
            (\<forall>k. canonicalKey E (firstPartyUrl (URL d)) = Some k \<and>
                 (\<forall>u\<in>set recs. getEntity E u = None \<longrightarrow> canonicalKey E u \<noteq> Some k) \<and>
                 (\<forall>entry\<in>set (devtoolsLog d). context_origin entry \<noteq> k) \<longrightarrow>
                 (\<exists>i. firstParty res = Some (Made i) \<and>
                    madeUpEntityCache res k = Some (Made i) \<and>
                    length (entities res) = Suc i \<and>
                    entities res ! i =
                      unrecognizedEntity (isChromeExtension E (firstPartyUrl (URL d))) k \<and>
                    (\<forall>u. entityByUrl res u \<noteq> Some (Made i)) \<and>
                    urlsByEntity res (Made i) = None)))"
proof -
  have 1: "mainDocumentUrl (URL d) = None \<longrightarrow> firstPartyUrl (URL d) = finalDisplayedUrl (URL d)"
    by (simp add: firstPartyUrl_absent)
  have 2: "\<forall>m. mainDocumentUrl (URL d) = Some m \<and> m \<noteq> [] \<longrightarrow> firstPartyUrl (URL d) = m"
    by (simp add: firstPartyUrl_present)
  have 3: "\<forall>k. getEntity E (firstPartyUrl (URL d)) = Some k \<longrightarrow> firstParty res = Some (Known k)"
    using firstParty_resolved[OF run] by (simp add: resolvedIn_def)
  have 4: "firstParty res =
              (case canonicalKey E (firstPartyUrl (URL d)) of
                 None \<Rightarrow> None | Some k \<Rightarrow> madeUpEntityCache res k)"
    if "getEntity E (firstPartyUrl (URL d)) = None"
    using firstParty_resolved[OF run] that by (simp add: resolvedIn_def)
  have 5: "firstParty res = entityByUrl res u \<and> entityByUrl res u \<noteq> None"
    if "getEntity E (firstPartyUrl (URL d)) = None"
      "canonicalKey E (firstPartyUrl (URL d)) = Some k \<and> u \<in> set recs \<and>
       getEntity E u = None \<and> canonicalKey E u = Some k" for k u
    using firstParty_shared[OF run that(1), of u k] that(2) by simp
  have 6: "\<exists>i. firstParty res = Some (Made i) \<and>
                    madeUpEntityCache res k = Some (Made i) \<and>
                    length (entities res) = Suc i \<and>
                    entities res ! i =
                      unrecognizedEntity (isChromeExtension E (firstPartyUrl (URL d))) k \<and>
                    (\<forall>u. entityByUrl res u \<noteq> Some (Made i)) \<and>
                    urlsByEntity res (Made i) = None"
    if "getEntity E (firstPartyUrl (URL d)) = None"
      "canonicalKey E (firstPartyUrl (URL d)) = Some k \<and>
       (\<forall>u\<in>set recs. getEntity E u = None \<longrightarrow> canonicalKey E u \<noteq> Some k) \<and>
       (\<forall>entry\<in>set (devtoolsLog d). context_origin entry \<noteq> k)" for k
    using firstParty_fresh[OF run that(1), of k] that(2) by simp
  show ?thesis using 1 2 3 4 5 6 by blast
qed

theorem first_party_resolution_witness:
  "compute exampleEnv (exampleData None []) [''https://sub.example.com/a''] =
     Inr (exampleResult None [] [''https://sub.example.com/a'']) \<and>
   mainDocumentUrl (URL (exampleData None [])) = None \<and>
   firstPartyUrl (URL (exampleData None [])) = ''https://example.org/'' \<and>
   getEntity exampleEnv ''https://example.org/'' = None \<and>
   canonicalKey exampleEnv ''https://example.org/'' = Some ''example.org'' \<and>
   canonicalKey exampleEnv ''https://sub.example.com/a'' \<noteq> Some ''example.org'' \<and>
   firstParty (exampleResult None [] [''https://sub.example.com/a'']) = Some (Made 1) \<and>
   madeUpEntityCache (exampleResult None [] [''https://sub.example.com/a'']) ''example.org'' =
     Some (Made 1) \<and>
   name (entities (exampleResult None [] [''https://sub.example.com/a'']) ! 1) = ''example.org'' \<and>
   urlsByEntity (exampleResult None [] [''https://sub.example.com/a'']) (Made 1) = None"
proof -
  let ?d = "exampleData None []"
  let ?recs = "[''https://sub.example.com/a'']"
  let ?r = "exampleResult None [] ?recs"
  have run: "compute exampleEnv ?d ?recs = Inr ?r"
    by (rule example_returns[OF example_preload_empty])
  note T = first_party_resolution[OF run]
  have absent: "mainDocumentUrl (URL ?d) = None" by (simp add: exampleData_def)
  with T have "firstPartyUrl (URL ?d) = finalDisplayedUrl (URL ?d)" by blast
  then have fpu: "firstPartyUrl (URL ?d) = ''https://example.org/''"
    by (simp add: exampleData_def)
  have g: "getEntity exampleEnv ''https://example.org/'' = None" by (simp add: exampleEnv_def)
  have k: "canonicalKey exampleEnv ''https://example.org/'' = Some ''example.org''"
    by (simp add: example_defs)
  have other: "canonicalKey exampleEnv ''https://sub.example.com/a'' \<noteq> Some ''example.org''"
    by (simp add: example_defs)
  have fresh: "canonicalKey exampleEnv (firstPartyUrl (URL ?d)) = Some ''example.org'' \<and>
       (\<forall>u\<in>set ?recs. getEntity exampleEnv u = None \<longrightarrow>
          canonicalKey exampleEnv u \<noteq> Some ''example.org'') \<and>
       (\<forall>entry\<in>set (devtoolsLog ?d). context_origin entry \<noteq> ''example.org'')"
    using fpu k other by (simp add: exampleData_def)
  have g': "getEntity exampleEnv (firstPartyUrl (URL ?d)) = None" using g fpu by simp
  note made = T[THEN conjunct2, THEN conjunct2, THEN conjunct2, THEN mp, OF g',
      THEN conjunct2, THEN conjunct2, THEN spec, THEN mp, OF fresh]
  then obtain i where
    i: "firstParty ?r = Some (Made i)" "madeUpEntityCache ?r ''example.org'' = Some (Made i)"
      "length (entities ?r) = Suc i"
      "entities ?r ! i =
         unrecognizedEntity (isChromeExtension exampleEnv (firstPartyUrl (URL ?d))) ''example.org''"
      "urlsByEntity ?r (Made i) = None"
    by blast
  have "length (entities ?r) = 2" by (simp add: example_defs)
  with i(3) have "i = 1" by simp
  with i have "firstParty ?r = Some (Made 1)" "madeUpEntityCache ?r ''example.org'' = Some (Made 1)"
    "name (entities ?r ! 1) = ''example.org''" "urlsByEntity ?r (Made 1) = None"
    by (simp_all add: unrecognizedEntity_def)
  with run absent fpu g k other show ?thesis by blast
qed

subsection \<open>C6: a URL nothing can be made of is left out\<close>

text \<open>
  C6, as amended. A network record whose URL the known-entity lookup does not match and
  that is malformed, or whose protocol is neither \<open>chrome-extension:\<close> nor starts with
  \<open>http\<close>, or that has no root domain (or extension origin), leaves the state of the loop
  as it was: the run's outcome is that of the records without it, the loop over the
  records raises nothing (a run returns exactly when the preload does), and the URL
  is in no entry of \<open>entityByUrl\<close> and in no set of \<open>urlsByEntity\<close>.
\<close>

theorem unclassifiable_record_omitted:
  assumes unknown: "getEntity E u = None"
    and bad: "\<not> isValid E u \<or>
     (urlProtocol E u \<noteq> ''chrome-extension:'' \<and> \<not> startsWith (urlProtocol E u) ''http'') \<or>
     truthy (if urlProtocol E u = ''chrome-extension:'' then getChromeExtensionOrigin E u
             else getRootDomain E u) = None"
  shows "classifyRecord E st u = st \<and>
         compute E d (before @ u # after) = compute E d (before @ after) \<and>
         ((\<exists>res. compute E d (before @ u # after) = Inr res) =
          (\<exists>hc. preloadChromeExtensionsToCache E ([], Map.empty) (devtoolsLog d) = Inr hc)) \<and>
         (\<forall>res. compute E d (before @ u # after) = Inr res \<longrightarrow>
            entityByUrl res u = None \<and> (\<forall>e s. urlsByEntity res e = Some s \<longrightarrow> u \<notin> s))"
proof -
  have key: "canonicalKey E u = None" using bad by (rule canonicalKey_rejects)
  have settled: "settled E st' u" for st' using unknown key by (simp add: settled_def)
  have 1: "classifyRecord E st u = st" using settled by (rule settled_classifyRecord_id)
  have 2: "compute E d (before @ u # after) = compute E d (before @ after)"
    by (simp add: compute_def classifyRecords_append settled_classifyRecord_id[OF settled]
          split: sum.splits)
  have 3: "entityByUrl res u = None \<and> (\<forall>e s. urlsByEntity res e = Some s \<longrightarrow> u \<notin> s)"
    if run: "compute E d (before @ u # after) = Inr res" for res
  proof -
    have none: "entityByUrl res u = None"
    proof (rule ccontr)
      assume "entityByUrl res u \<noteq> None"
      then obtain r where "entityByUrl res u = Some r" by auto
      from agrees_final[OF run this] unknown key show False by (simp add: resolvedIn_def)
    qed
    have "u \<notin> s" if "urlsByEntity res e = Some s" for e s
    proof
      assume "u \<in> s"
      with that have "entityByUrl res u = Some e"
        using urlsByEntity_member[OF run, of e u] by blast
      with none show False by simp
    qed
    with none show ?thesis by blast
  qed
  show ?thesis using 1 2 3 compute_returns[of E d "before @ u # after"] by blast
qed

theorem unclassifiable_record_omitted_witness:
  "getEntity exampleEnv ''data:text/plain,hi'' = None \<and>
   isValid exampleEnv ''data:text/plain,hi'' \<and>
   urlProtocol exampleEnv ''data:text/plain,hi'' = ''data:'' \<and>
   getEntity exampleEnv ''not a url'' = None \<and>
   \<not> isValid exampleEnv ''not a url'' \<and>
   compute exampleEnv (exampleData None [])
     ([''https://sub.example.com/a''] @ ''data:text/plain,hi'' # [''https://other.example.com/b'']) =
   compute exampleEnv (exampleData None [])
     ([''https://sub.example.com/a''] @ [''https://other.example.com/b'']) \<and>
   compute exampleEnv (exampleData None []) ([] @ ''not a url'' # []) =
     Inr (exampleResult None [] ([] @ ''not a url'' # [])) \<and>
   entityByUrl (exampleResult None [] ([] @ ''not a url'' # [])) ''not a url'' = None"
proof -
  let ?u = "''data:text/plain,hi''" and ?v = "''not a url''"
  have g: "getEntity exampleEnv ?u = None" "getEntity exampleEnv ?v = None"
    by (simp_all add: exampleEnv_def)
  have valid: "isValid exampleEnv ?u" and proto: "urlProtocol exampleEnv ?u = ''data:''"
    and invalid: "\<not> isValid exampleEnv ?v"
    by (simp_all add: exampleEnv_def)
  have bad_u: "\<not> isValid exampleEnv ?u \<or>
     (urlProtocol exampleEnv ?u \<noteq> ''chrome-extension:'' \<and>
      \<not> startsWith (urlProtocol exampleEnv ?u) ''http'') \<or>
     truthy (if urlProtocol exampleEnv ?u = ''chrome-extension:''
             then getChromeExtensionOrigin exampleEnv ?u
             else getRootDomain exampleEnv ?u) = None"
    using proto by (simp add: startsWith_def)
  have bad_v: "\<not> isValid exampleEnv ?v \<or>
     (urlProtocol exampleEnv ?v \<noteq> ''chrome-extension:'' \<and>
      \<not> startsWith (urlProtocol exampleEnv ?v) ''http'') \<or>
     truthy (if urlProtocol exampleEnv ?v = ''chrome-extension:''
             then getChromeExtensionOrigin exampleEnv ?v
             else getRootDomain exampleEnv ?v) = None"
    using invalid by simp
  have 1: "compute exampleEnv (exampleData None [])
     ([''https://sub.example.com/a''] @ ?u # [''https://other.example.com/b'']) =
   compute exampleEnv (exampleData None [])
     ([''https://sub.example.com/a''] @ [''https://other.example.com/b''])"
    using unclassifiable_record_omitted[OF g(1) bad_u] by blast
  have run: "compute exampleEnv (exampleData None []) ([] @ ?v # []) =
     Inr (exampleResult None [] ([] @ ?v # []))"
    by (rule example_returns[OF example_preload_empty])
  have 2: "entityByUrl (exampleResult None [] ([] @ ?v # [])) ?v = None"
    using unclassifiable_record_omitted[OF g(2) bad_v, of _ "exampleData None []" "[]" "[]"] run
    by blast
  from g valid proto invalid 1 run 2 show ?thesis by blast
qed

text \<open>
  C6 as stated fails in two ways. The lookup is asked before anything is checked,
  so a URL of an unsupported scheme that it matches (here a \<open>wss:\<close> URL) gets its entry.
  And the scheme test is \<open>startsWith('http')\<close>, which a protocol such as \<open>httpx:\<close>
  passes, so such a URL gets a made-up entity.
\<close>

theorem unsupported_scheme_counterexample:
  "urlProtocol exampleEnv ''wss://maps.googleapis.com/live'' = ''wss:'' \<and>
   urlProtocol exampleEnv ''httpx://cdn.example.net/x'' = ''httpx:'' \<and>
   compute exampleEnv (exampleData None [])
     [''wss://maps.googleapis.com/live'', ''httpx://cdn.example.net/x''] =
     Inr (exampleResult None []
       [''wss://maps.googleapis.com/live'', ''httpx://cdn.example.net/x'']) \<and>
   entityByUrl (exampleResult None []
       [''wss://maps.googleapis.com/live'', ''httpx://cdn.example.net/x''])
     ''wss://maps.googleapis.com/live'' = Some (Known 1) \<and>
   entityByUrl (exampleResult None []
       [''wss://maps.googleapis.com/live'', ''httpx://cdn.example.net/x''])
     ''httpx://cdn.example.net/x'' = Some (Made 0)"
  by (simp add: example_defs)

subsection \<open>C7: the entity makeUpAnEntity makes\<close>

text \<open>
  C7. For a URL that passes the checks of \<open>makeUpAnEntity\<close> with a key the cache does
  not have (the function \<open>compute_\<close> calls for a URL the known-entity lookup does not
  match), the function makes a new entity whose name and company are the key, whose
  domains are the key alone for a web URL and empty for an extension URL, with
  \<open>isUnrecognized\<close> true, an empty category and no categories, and the three counters
  zero; it stores it in the cache under the key and returns it.
\<close>

theorem makeUpAnEntity_synthesizes:
  assumes "isValid E url"
    and "urlProtocol E url = ''chrome-extension:'' \<or> startsWith (urlProtocol E url) ''http''"
    and "truthy (if urlProtocol E url = ''chrome-extension:'' then getChromeExtensionOrigin E url
                 else getRootDomain E url) = Some key"
    and "entityCache key = None"
  shows "\<exists>e. makeUpAnEntity E (h, entityCache) url =
               (Some (Made (length h)), h @ [e], entityCache(key \<mapsto> Made (length h))) \<and>
             (getEntity E url = None \<longrightarrow>
                resolveEntity E (h, entityCache) url = makeUpAnEntity E (h, entityCache) url) \<and>
             name e = key \<and> company e = key \<and>
             domains e = (if urlProtocol E url = ''chrome-extension:'' then [] else [key]) \<and>
             isUnrecognized e = Some True \<and> category e = [] \<and> categories e = [] \<and>
             averageExecutionTime e = 0 \<and> totalExecutionTime e = 0 \<and> totalOccurrences e = 0 \<and>
             homepage e = None"
proof -
  have "canonicalKey E url = Some key"
    using assms(1-3) by (auto simp: canonicalKey_def isChromeExtension_def)
  from makeUpAnEntity_miss[where c=entityCache and h=h, OF this assms(4)] show ?thesis
    by (simp add: unrecognizedEntity_def isChromeExtension_def resolveEntity_def)
qed

theorem makeUpAnEntity_synthesizes_witness:
  "isValid exampleEnv ''https://sub.example.com/a'' \<and>
   startsWith (urlProtocol exampleEnv ''https://sub.example.com/a'') ''http'' \<and>
   getRootDomain exampleEnv ''https://sub.example.com/a'' = Some ''example.com'' \<and>
   fst (makeUpAnEntity exampleEnv ([], Map.empty) ''https://sub.example.com/a'') = Some (Made 0) \<and>
   domains (hd (fst (snd (makeUpAnEntity exampleEnv ([], Map.empty)
                            ''https://sub.example.com/a'')))) = [''example.com''] \<and>
   isUnrecognized (hd (fst (snd (makeUpAnEntity exampleEnv ([], Map.empty)
                                   ''https://sub.example.com/a'')))) = Some True \<and>
   snd (snd (makeUpAnEntity exampleEnv ([], Map.empty) ''https://sub.example.com/a''))
     ''example.com'' = Some (Made 0)"
proof -
  let ?u = "''https://sub.example.com/a''"
  have valid: "isValid exampleEnv ?u" by (simp add: exampleEnv_def)
  have http: "startsWith (urlProtocol exampleEnv ?u) ''http''"
    by (simp add: exampleEnv_def startsWith_def)
  then have proto: "urlProtocol exampleEnv ?u = ''chrome-extension:'' \<or>
      startsWith (urlProtocol exampleEnv ?u) ''http''" by simp
  have root: "getRootDomain exampleEnv ?u = Some ''example.com''" by (simp add: exampleEnv_def)
  have key: "truthy (if urlProtocol exampleEnv ?u = ''chrome-extension:''
                     then getChromeExtensionOrigin exampleEnv ?u
                     else getRootDomain exampleEnv ?u) = Some ''example.com''"
    by (simp add: exampleEnv_def)
  have free: "(Map.empty :: EntityCache) ''example.com'' = None" by simp
  from makeUpAnEntity_synthesizes[OF valid proto key free, of "[]"] obtain e where
    e: "makeUpAnEntity exampleEnv ([], Map.empty) ?u =
          (Some (Made (length ([] :: entity list))), [] @ [e],
           (Map.empty :: EntityCache)(''example.com'' \<mapsto> Made (length ([] :: entity list))))"
      "domains e = (if urlProtocol exampleEnv ?u = ''chrome-extension:'' then []
                    else [''example.com''])"
      "isUnrecognized e = Some True"
    by blast
  have "urlProtocol exampleEnv ?u \<noteq> ''chrome-extension:''" by (simp add: exampleEnv_def)
  with e valid http root show ?thesis by simp
qed

subsection \<open>C8: which entities are flagged isUnrecognized\<close>

text \<open>
  C8, as amended. An entity that a run's result refers to (through \<open>entityByUrl\<close> or as
  \<open>firstParty\<close>) is an object of the dataset, which the module returns as the lookup
  gave it and never writes to, or an object the run made. An object the run made has
  \<open>isUnrecognized\<close> true exactly when \<open>makeUpAnEntity\<close> made it, for the canonical key of a
  record's URL or of the first-party URL that the lookup does not match, be that key the
  root domain of a web URL or the origin of an extension URL that was not preloaded;
  otherwise the preload made it for an entry of the log, and it has no flag.
\<close>

theorem isUnrecognized_provenance:
  assumes run: "compute E d recs = Inr res"
    and reach: "entityByUrl res u = Some r \<or> firstParty res = Some r"
  shows "case r of
           Known k \<Rightarrow> (\<exists>v. getEntity E v = Some k)
         | Made i \<Rightarrow> i < length (entities res) \<and>
             (if isUnrecognized (entities res ! i) = Some True
              then synthesized E (insert (firstPartyUrl (URL d)) (set recs)) (entities res ! i)
              else preloaded E (devtoolsLog d) (entities res ! i) \<and>
                   isUnrecognized (entities res ! i) = None)"
proof -
  have ok: "store_ok E (devtoolsLog d) (insert (firstPartyUrl (URL d)) (set recs))
           (entities res) (madeUpEntityCache res)"
    using run by (rule store_ok_final)
  obtain v where v: "resolvedIn E (madeUpEntityCache res) v = Some r"
    using reach agrees_final[OF run] firstParty_resolved[OF run] by metis
  show ?thesis
  proof (cases r)
    case (Known k)
    with v have "getEntity E v = Some k"
      using ok by (auto simp: resolvedIn_def store_ok_def cache_wf_def split: option.splits)
    with Known show ?thesis by auto
  next
    case (Made i)
    with v obtain k where "madeUpEntityCache res k = Some (Made i)"
      by (auto simp: resolvedIn_def split: option.splits)
    then have i: "i < length (entities res)"
      using ok by (auto simp: store_ok_def cache_wf_def)
    then have "preloaded E (devtoolsLog d) (entities res ! i) \<or>
        synthesized E (insert (firstPartyUrl (URL d)) (set recs)) (entities res ! i)"
      using ok by (simp add: store_ok_def)
    then show ?thesis using Made i preloaded_flag synthesized_flag by fastforce
  qed
qed

theorem isUnrecognized_provenance_witness:
  "compute exampleEnv
     (exampleData None [contextCreated ''chrome-extension://abc123'' ''My Ext''])
     [''chrome-extension://abc123/script.js'', ''https://sub.example.com/a''] =
     Inr (exampleResult None [contextCreated ''chrome-extension://abc123'' ''My Ext'']
            [''chrome-extension://abc123/script.js'', ''https://sub.example.com/a'']) \<and>
   entityByUrl (exampleResult None [contextCreated ''chrome-extension://abc123'' ''My Ext'']
            [''chrome-extension://abc123/script.js'', ''https://sub.example.com/a''])
     ''chrome-extension://abc123/script.js'' = Some (Made 0) \<and>
   isUnrecognized (entities (exampleResult None [contextCreated ''chrome-extension://abc123'' ''My Ext'']
            [''chrome-extension://abc123/script.js'', ''https://sub.example.com/a'']) ! 0) = None \<and>
   preloaded exampleEnv [contextCreated ''chrome-extension://abc123'' ''My Ext'']
     (entities (exampleResult None [contextCreated ''chrome-extension://abc123'' ''My Ext'']
            [''chrome-extension://abc123/script.js'', ''https://sub.example.com/a'']) ! 0) \<and>
   entityByUrl (exampleResult None [contextCreated ''chrome-extension://abc123'' ''My Ext'']
            [''chrome-extension://abc123/script.js'', ''https://sub.example.com/a''])
     ''https://sub.example.com/a'' = Some (Made 1) \<and>
   isUnrecognized (entities (exampleResult None [contextCreated ''chrome-extension://abc123'' ''My Ext'']
            [''chrome-extension://abc123/script.js'', ''https://sub.example.com/a'']) ! 1) = Some True \<and>
   synthesized exampleEnv
     (insert ''https://example.org/''
        (set [''chrome-extension://abc123/script.js'', ''https://sub.example.com/a'']))
     (entities (exampleResult None [contextCreated ''chrome-extension://abc123'' ''My Ext'']
            [''chrome-extension://abc123/script.js'', ''https://sub.example.com/a'']) ! 1)"
proof -
  let ?lg = "[contextCreated ''chrome-extension://abc123'' ''My Ext'']"
  let ?recs = "[''chrome-extension://abc123/script.js'', ''https://sub.example.com/a'']"
  let ?r = "exampleResult None ?lg ?recs"
  have run: "compute exampleEnv (exampleData None ?lg) ?recs = Inr ?r"
    by (rule example_returns[OF example_preload_abc123])
  have e0: "entityByUrl ?r ''chrome-extension://abc123/script.js'' = Some (Made 0)"
    and e1: "entityByUrl ?r ''https://sub.example.com/a'' = Some (Made 1)"
    by (simp_all add: example_defs)
  have f0: "isUnrecognized (entities ?r ! 0) = None"
    and f1: "isUnrecognized (entities ?r ! 1) = Some True"
    by (simp_all add: example_defs)
  have fpu: "firstPartyUrl (URL (exampleData None ?lg)) = ''https://example.org/''"
    and lg: "devtoolsLog (exampleData None ?lg) = ?lg"
    by (simp_all add: exampleData_def firstPartyUrl_def)
  have p0: "preloaded exampleEnv ?lg (entities ?r ! 0)"
    using isUnrecognized_provenance[OF run disjI1[OF e0]] f0 lg by simp
  have p1: "synthesized exampleEnv (insert ''https://example.org/'' (set ?recs)) (entities ?r ! 1)"
    using isUnrecognized_provenance[OF run disjI1[OF e1]] f1 fpu by simp
  from run e0 e1 f0 f1 p0 p1 show ?thesis by blast
qed

text \<open>
  C8 as stated fails for an extension that no entry of the log preloaded: the URL
  of its script goes through \<open>makeUpAnEntity\<close>, and the entity made for the extension's
  origin (no root domain, no domains) is flagged.
\<close>

theorem extension_unrecognized_counterexample:
  "compute exampleEnv (exampleData None []) [''chrome-extension://xyz789/inject.js''] =
     Inr (exampleResult None [] [''chrome-extension://xyz789/inject.js'']) \<and>
   urlProtocol exampleEnv ''chrome-extension://xyz789/inject.js'' = ''chrome-extension:'' \<and>
   entityByUrl (exampleResult None [] [''chrome-extension://xyz789/inject.js''])
     ''chrome-extension://xyz789/inject.js'' = Some (Made 0) \<and>
   name (entities (exampleResult None [] [''chrome-extension://xyz789/inject.js'']) ! 0) =
     ''chrome-extension://xyz789'' \<and>
   domains (entities (exampleResult None [] [''chrome-extension://xyz789/inject.js'']) ! 0) = [] \<and>
   isUnrecognized (entities (exampleResult None [] [''chrome-extension://xyz789/inject.js'']) ! 0) =
     Some True"
  by (simp add: example_defs)

subsection \<open>C9: one producer invocation for a key\<close>

text \<open>
  C9, on the dependency cache as the spec describes it. In a run context that starts
  empty, whatever the order of the requests and of the producers' completions, the
  producer is invoked exactly once for a key that is requested at all (and not for a key
  that is not), and any two callers that requested the key see the same thing: the
  same pending placeholder, the same result or the same failure.
\<close>

theorem producer_runs_once:
  "count_list (producerCalls (cache (foldl step newRun evs))) key =
     (if \<exists>caller. Request caller key \<in> set evs then 1 else 0) \<and>
   (\<forall>c1 c2. Request c1 key \<in> set evs \<and> Request c2 key \<in> set evs \<longrightarrow>
      observed (foldl step newRun evs) c1 key = observed (foldl step newRun evs) c2 key \<and>
      observed (foldl step newRun evs) c1 key \<noteq> None)"
proof -
  let ?s = "foldl step newRun evs"
  have inv: "single_flight ?s" using single_flight_newRun by (rule single_flight_foldl)
  have handed: "\<And>c k p. ((c, k), p) \<in> set (handed ?s) \<Longrightarrow> computedCache (cache ?s) k = Some p"
    using inv by (simp add: single_flight_def)
  have count: "count_list (producerCalls (cache ?s)) key =
     (if \<exists>caller. Request caller key \<in> set evs then 1 else 0)"
  proof (cases "\<exists>caller. Request caller key \<in> set evs")
    case True
    then obtain caller where "Request caller key \<in> set evs" by blast
    then obtain p where "((caller, key), p) \<in> set (handed ?s)"
      using requested_handed[of caller key evs newRun] by blast
    then have "computedCache (cache ?s) key = Some p" by (rule handed)
    then show ?thesis using inv True by (simp add: single_flight_def)
  next
    case False
    have "computedCache (cache ?s) key = None"
    proof (rule ccontr)
      assume "computedCache (cache ?s) key \<noteq> None"
      from cache_only_requested[OF this] False show False by (simp add: newRun_def)
    qed
    then show ?thesis using inv False by (simp add: single_flight_def)
  qed
  have same: "observed ?s c1 key = observed ?s c2 key \<and> observed ?s c1 key \<noteq> None"
    if req: "Request c1 key \<in> set evs \<and> Request c2 key \<in> set evs" for c1 c2
  proof -
    obtain p1 where h1: "((c1, key), p1) \<in> set (handed ?s)"
      using req requested_handed[of c1 key evs newRun] by blast
    obtain p2 where h2: "((c2, key), p2) \<in> set (handed ?s)"
      using req requested_handed[of c2 key evs newRun] by blast
    from handed[OF h1] handed[OF h2] have "p1 = p2" by simp
    then show ?thesis using observed_handed[OF inv h1] observed_handed[OF inv h2] by simp
  qed
  show ?thesis using count same by blast
qed

theorem producer_runs_once_witness:
  "count_list (producerCalls (cache (foldl step (newRun :: unit run)
       [Request 1 (CacheKey ''EntityClassification'' ''fp''),
        Request 2 (CacheKey ''EntityClassification'' ''fp''),
        Complete 0 (Failure ''protocol error''),
        Request 3 (CacheKey ''EntityClassification'' ''fp'')])))
     (CacheKey ''EntityClassification'' ''fp'') = 1 \<and>
   observed (foldl step (newRun :: unit run)
       [Request 1 (CacheKey ''EntityClassification'' ''fp''),
        Request 2 (CacheKey ''EntityClassification'' ''fp''),
        Complete 0 (Failure ''protocol error''),
        Request 3 (CacheKey ''EntityClassification'' ''fp'')])
     1 (CacheKey ''EntityClassification'' ''fp'') =
   observed (foldl step (newRun :: unit run)
       [Request 1 (CacheKey ''EntityClassification'' ''fp''),
        Request 2 (CacheKey ''EntityClassification'' ''fp''),
        Complete 0 (Failure ''protocol error''),
        Request 3 (CacheKey ''EntityClassification'' ''fp'')])
     3 (CacheKey ''EntityClassification'' ''fp'') \<and>
   observed (foldl step (newRun :: unit run)
       [Request 1 (CacheKey ''EntityClassification'' ''fp''),
        Request 2 (CacheKey ''EntityClassification'' ''fp''),
        Complete 0 (Failure ''protocol error''),
        Request 3 (CacheKey ''EntityClassification'' ''fp'')])
     3 (CacheKey ''EntityClassification'' ''fp'') = Some (Done (Failure ''protocol error''))"
proof -
  let ?k = "CacheKey ''EntityClassification'' ''fp''"
  let ?evs = "[Request 1 ?k, Request 2 ?k, Complete 0 (Failure ''protocol error''), Request 3 ?k]
                :: unit event list"
  note T = producer_runs_once[of ?evs ?k]
  have req: "Request 1 ?k \<in> set ?evs \<and> Request 3 ?k \<in> set ?evs" by simp
  then have "\<exists>caller. Request caller ?k \<in> set ?evs" by blast
  with T have 1: "count_list (producerCalls (cache (foldl step newRun ?evs))) ?k = 1"
    by presburger
  from T req have 2: "observed (foldl step newRun ?evs) 1 ?k = observed (foldl step newRun ?evs) 3 ?k"
    by blast
  have 3: "observed (foldl step newRun ?evs) 3 ?k = Some (Done (Failure ''protocol error''))"
    by (simp add: newRun_def request_def complete_def observed_def)
  from 1 2 3 show ?thesis by blast
qed

subsection \<open>C10: isFirstParty when there is no first party\<close>

text \<open>
  C10. \<open>firstParty\<close> is \<open>undefined\<close> exactly when neither the lookup nor the synthesis
  gives the first-party URL an entity, and then \<open>isFirstParty(url)\<close> is true exactly for
  the URLs that have no entry in \<open>entityByUrl\<close>: \<open>undefined === undefined\<close>.
\<close>

theorem isFirstParty_without_first_party:
  assumes run: "compute E d recs = Inr res"
  shows "(firstParty res = None) =
           (getEntity E (firstPartyUrl (URL d)) = None \<and>
            canonicalKey E (firstPartyUrl (URL d)) = None) \<and>
         (firstParty res = None \<longrightarrow>
            (\<forall>url. isFirstParty res url = (entityByUrl res url = None)))"
proof -
  from run obtain h c where
    res: "res = resolveFirstParty E (classifyRecords E (initialState (h, c)) recs) (firstPartyUrl (URL d))"
    by (rule compute_Inr)
  have "(firstParty res = None) =
           (getEntity E (firstPartyUrl (URL d)) = None \<and>
            canonicalKey E (firstPartyUrl (URL d)) = None)"
    unfolding res
    by (rule resolveFirstParty_cases[where E=E and url="firstPartyUrl (URL d)"
          and st="classifyRecords E (initialState (h, c)) recs"]) simp_all
  moreover have "firstParty res = None \<longrightarrow>
            (\<forall>url. isFirstParty res url = (entityByUrl res url = None))"
    by (auto simp: isFirstParty_def)
  ultimately show ?thesis by (rule conjI)
qed

theorem isFirstParty_without_first_party_witness:
  "compute exampleEnv (exampleData (Some ''about:blank'') [])
     [''https://sub.example.com/a'', ''data:text/plain,hi''] =
     Inr (exampleResult (Some ''about:blank'') []
            [''https://sub.example.com/a'', ''data:text/plain,hi'']) \<and>
   firstPartyUrl (URL (exampleData (Some ''about:blank'') [])) = ''about:blank'' \<and>
   firstParty (exampleResult (Some ''about:blank'') []
            [''https://sub.example.com/a'', ''data:text/plain,hi'']) = None \<and>
   entityByUrl (exampleResult (Some ''about:blank'') []
            [''https://sub.example.com/a'', ''data:text/plain,hi'']) ''data:text/plain,hi'' = None \<and>
   isFirstParty (exampleResult (Some ''about:blank'') []
            [''https://sub.example.com/a'', ''data:text/plain,hi'']) ''data:text/plain,hi'' \<and>
   \<not> isFirstParty (exampleResult (Some ''about:blank'') []
            [''https://sub.example.com/a'', ''data:text/plain,hi'']) ''https://sub.example.com/a''"
proof -
  let ?d = "exampleData (Some ''about:blank'') []"
  let ?recs = "[''https://sub.example.com/a'', ''data:text/plain,hi'']"
  let ?r = "exampleResult (Some ''about:blank'') [] ?recs"
  have run: "compute exampleEnv ?d ?recs = Inr ?r"
    by (rule example_returns[OF example_preload_empty])
  note T = isFirstParty_without_first_party[OF run]
  have fpu: "firstPartyUrl (URL ?d) = ''about:blank''"
    by (simp add: exampleData_def firstPartyUrl_def)
  have "getEntity exampleEnv (firstPartyUrl (URL ?d)) = None \<and>
        canonicalKey exampleEnv (firstPartyUrl (URL ?d)) = None"
    unfolding fpu by (simp add: example_defs)
  with T have none: "firstParty ?r = None" by blast
  with T have fp: "\<forall>url. isFirstParty ?r url = (entityByUrl ?r url = None)" by blast
  have e1: "entityByUrl ?r ''data:text/plain,hi'' = None"
    and e2: "entityByUrl ?r ''https://sub.example.com/a'' \<noteq> None"
    by (simp_all add: example_defs)
  have i1: "isFirstParty ?r ''data:text/plain,hi''"
    using fp e1 by simp
  have i2: "\<not> isFirstParty ?r ''https://sub.example.com/a''"
    using fp e2 by simp
  from run fpu none e1 i1 i2 show ?thesis by simp
qed

end
